(* ===== verification/Prelude.thy ===== *)
theory Prelude
  imports Main "HOL-Library.Sublist"
begin

text \<open>
  Shared vocabulary of the development. Python's \<open>str\<close> is modelled as \<open>string\<close>
  (\<open>char list\<close>); an Isabelle \<open>char\<close> is read as the Unicode code point of the same
  number, so the model covers text in the range U+0000..U+00FF (ASCII and Latin-1).
  This theory defines the Python string primitives the program calls
  (\<open>str.lower\<close>, \<open>str.isspace\<close>, \<open>in\<close>, \<open>str.strip\<close>, \<open>str.splitlines\<close>,
  truthiness, \<open>x or ""\<close>) exactly as CPython computes them on that range, and the
  generic list lemmas the component theories share. The collection \<open>py_str\<close>
  gathers the equations by which concrete strings evaluate.
\<close>

named_theorems py_str "evaluation equations of the Python string primitives"
named_theorems world_le_step "state-passing operations that only add flags, append replies and count calls"

subsection \<open>Characters\<close>

definition LF :: char where "LF = CHR 0x0A"
definition CR :: char where "CR = CHR 0x0D"

definition code :: "char \<Rightarrow> nat" where
  "code c = of_char c"

definition in_range :: "char \<Rightarrow> char \<Rightarrow> char \<Rightarrow> bool" where
  "in_range lo hi c \<longleftrightarrow> code lo \<le> code c \<and> code c \<le> code hi"

text \<open>\<open>str.isspace\<close> and the regular-expression class \<open>\s\<close> of a \<open>str\<close> pattern agree
  (both use the Unicode whitespace test); below U+0100 they hold for
  \<open>\t \n \v \f \r\<close>, U+001C..U+001F, space, U+0085 and U+00A0.\<close>

definition py_isspace :: "char \<Rightarrow> bool" where
  "py_isspace c \<longleftrightarrow> (let n = code c in
     (9 \<le> n \<and> n \<le> 13) \<or> (28 \<le> n \<and> n \<le> 32) \<or> n = 133 \<or> n = 160)"

text \<open>Line boundaries of \<open>str.splitlines\<close> below U+0100: \<open>\n \v \f \r\<close>,
  U+001C..U+001E and U+0085 (U+001F is whitespace but no line boundary).\<close>

definition is_linebreak :: "char \<Rightarrow> bool" where
  "is_linebreak c \<longleftrightarrow> (let n = code c in
     (10 \<le> n \<and> n \<le> 13) \<or> (28 \<le> n \<and> n \<le> 30) \<or> n = 133)"

text \<open>\<open>str.lower\<close> below U+0100 maps A..Z and U+00C0..U+00DE (but for U+00D7) up by 32;
  \<open>py_upper_chr\<close> is the inverse on the letters that have a Latin-1 upper case
  (the simple upper cases of U+00B5 and U+00FF lie outside the range and are kept).\<close>

definition py_lower_chr :: "char \<Rightarrow> char" where
  "py_lower_chr c = (let n = code c in
     if (65 \<le> n \<and> n \<le> 90) \<or> (192 \<le> n \<and> n \<le> 222 \<and> n \<noteq> 215) then char_of (n + 32) else c)"

definition py_upper_chr :: "char \<Rightarrow> char" where
  "py_upper_chr c = (let n = code c in
     if (97 \<le> n \<and> n \<le> 122) \<or> (224 \<le> n \<and> n \<le> 254 \<and> n \<noteq> 247) then char_of (n - 32) else c)"

definition py_lower :: "string \<Rightarrow> string" where
  "py_lower s = map py_lower_chr s"

definition is_alpha :: "char \<Rightarrow> bool" where
  "is_alpha c \<longleftrightarrow> in_range CHR ''A'' CHR ''Z'' c \<or> in_range CHR ''a'' CHR ''z'' c"

definition is_digit :: "char \<Rightarrow> bool" where
  "is_digit c \<longleftrightarrow> in_range CHR ''0'' CHR ''9'' c"

subsection \<open>Strings\<close>

text \<open>\<open>needle in hay\<close> for two strings: a substring test.\<close>

fun py_in :: "string \<Rightarrow> string \<Rightarrow> bool" where
  "py_in n [] \<longleftrightarrow> n = []"
| "py_in n (c # cs) \<longleftrightarrow> prefix n (c # cs) \<or> py_in n cs"

text \<open>\<open>str.strip()\<close> with no argument.\<close>

definition py_strip :: "string \<Rightarrow> string" where
  "py_strip s = rev (dropWhile py_isspace (rev (dropWhile py_isspace s)))"

text \<open>Truthiness of a value that is a string or \<open>None\<close> (\<open>msg.get(...)\<close>), and
  \<open>v or ""\<close>.\<close>

fun truthy :: "string option \<Rightarrow> bool" where
  "truthy None = False"
| "truthy (Some s) = (s \<noteq> [])"

fun or_empty :: "string option \<Rightarrow> string" where
  "or_empty None = []"
| "or_empty (Some s) = s"

text \<open>\<open>str.splitlines()\<close>: the current line is accumulated in \<open>cur\<close>; \<open>\r\n\<close> is one
  boundary; a final boundary does not open an empty last line.\<close>

fun splitlines_acc :: "string \<Rightarrow> string \<Rightarrow> string list" where
  "splitlines_acc cur [] = (if cur = [] then [] else [cur])"
| "splitlines_acc cur (c # cs) =
     (if c = CR \<and> cs \<noteq> [] \<and> hd cs = LF then cur # splitlines_acc [] (tl cs)
      else if is_linebreak c then cur # splitlines_acc [] cs
      else splitlines_acc (cur @ [c]) cs)"

definition py_splitlines :: "string \<Rightarrow> string list" where
  "py_splitlines s = splitlines_acc [] s"

text \<open>\<open>sep.join(xs)\<close>.\<close>

fun py_join :: "string \<Rightarrow> string list \<Rightarrow> string" where
  "py_join sep [] = []"
| "py_join sep [x] = x"
| "py_join sep (x # y # zs) = x @ sep @ py_join sep (y # zs)"

subsection \<open>Evaluation equations\<close>

lemma code_simps [simp, py_str]:
  "code (Char b0 b1 b2 b3 b4 b5 b6 b7) = of_char (Char b0 b1 b2 b3 b4 b5 b6 b7)"
  by (simp add: code_def)

lemmas py_char_defs [py_str] =
  LF_def CR_def in_range_def py_isspace_def is_linebreak_def py_lower_chr_def
  py_upper_chr_def is_alpha_def is_digit_def py_lower_def py_strip_def py_splitlines_def

subsection \<open>Generic lemmas\<close>

lemma code_less_256: "code c < 256"
  by (simp add: code_def)

lemma char_of_code [simp]: "char_of (code c) = c"
  by (simp add: code_def)

lemma code_char_of: "n < 256 \<Longrightarrow> code (char_of n) = n"
  by (simp add: code_def)

lemma code_inject [simp]: "code c = code d \<longleftrightarrow> c = d"
  by (metis char_of_code)

lemma py_lower_chr_alpha_iff [simp]: "is_alpha (py_lower_chr c) \<longleftrightarrow> is_alpha c"
  using code_less_256 [of c]
  by (auto simp: py_lower_chr_def is_alpha_def in_range_def Let_def code_char_of)

lemma length_py_lower [simp]: "length (py_lower s) = length s"
  by (simp add: py_lower_def)

lemma py_lower_append [simp]: "py_lower (xs @ ys) = py_lower xs @ py_lower ys"
  by (simp add: py_lower_def)

lemma py_lower_Cons [simp]: "py_lower (x # xs) = py_lower_chr x # py_lower xs"
  by (simp add: py_lower_def)

lemma py_lower_Nil [simp]: "py_lower [] = []"
  by (simp add: py_lower_def)

lemma py_in_iff_sublist: "py_in n h \<longleftrightarrow> sublist n h"
  by (induction h) (auto simp: sublist_Cons_right)

lemma py_in_append_right [intro]: "py_in n h \<Longrightarrow> py_in n (h @ t)"
  by (auto simp: py_in_iff_sublist intro: sublist_append_rightI sublist_order.order_trans)

lemma py_in_append_left [intro]: "py_in n t \<Longrightarrow> py_in n (h @ t)"
  by (auto simp: py_in_iff_sublist intro: sublist_append_leftI sublist_order.order_trans)

lemma list_all_take_takeWhile:
  "k \<le> length xs \<and> list_all P (take k xs) \<longleftrightarrow> k \<le> length (takeWhile P xs)"
proof (induction xs arbitrary: k)
  case Nil
  then show ?case by simp
next
  case (Cons x xs)
  then show ?case by (cases k) auto
qed

lemma takeWhile_eq_take: "takeWhile P xs = take (length (takeWhile P xs)) xs"
  by (induction xs) auto

lemma sublist_append_left_trans: "sublist l ys \<Longrightarrow> sublist l (xs @ ys)"
  by (rule sublist_order.order_trans [OF _ sublist_append_leftI])

lemma dropWhile_hd_not: "xs \<noteq> [] \<Longrightarrow> \<not> P (hd xs) \<Longrightarrow> dropWhile P xs = xs"
  by (cases xs) auto

lemma takeWhile_append_stop:
  "list_all P u \<Longrightarrow> (v = [] \<or> \<not> P (hd v)) \<Longrightarrow> takeWhile P (u @ v) = u"
proof (induction u)
  case Nil
  then show ?case by (cases v) auto
next
  case (Cons x u)
  then show ?case by simp
qed

lemma strip_pad:
  assumes "list_all P a" "list_all P b" "x \<noteq> []" "\<not> P (hd x)" "\<not> P (last x)"
  shows "rev (dropWhile P (rev (dropWhile P (a @ x @ b)))) = x"
proof -
  have "hd x \<in> set x" using assms(3) by simp
  have "dropWhile P (a @ x @ b) = dropWhile P (x @ b)"
    using assms(1) by (simp add: dropWhile_append list_all_iff)
  also have "\<dots> = x @ b"
    using dropWhile_append1 [of "hd x" x P b] \<open>hd x \<in> set x\<close> assms(3,4)
    by (simp add: dropWhile_hd_not)
  finally have l: "dropWhile P (a @ x @ b) = x @ b" .
  have "dropWhile P (rev (x @ b)) = dropWhile P (rev x)"
    using assms(2) by (simp add: dropWhile_append list_all_iff)
  also have "\<dots> = rev x"
    using assms(3,5) by (simp add: dropWhile_hd_not hd_rev)
  finally have r: "dropWhile P (rev (x @ b)) = rev x" .
  from l r show ?thesis by simp
qed

subsection \<open>Case mapping on code points\<close>

lemma code_lower:
  "code (py_lower_chr c) =
     (if (65 \<le> code c \<and> code c \<le> 90) \<or> (192 \<le> code c \<and> code c \<le> 222 \<and> code c \<noteq> 215)
      then code c + 32 else code c)"
  using code_less_256 [of c] by (auto simp: py_lower_chr_def Let_def code_char_of)

lemma code_upper:
  "code (py_upper_chr c) =
     (if (97 \<le> code c \<and> code c \<le> 122) \<or> (224 \<le> code c \<and> code c \<le> 254 \<and> code c \<noteq> 247)
      then code c - 32 else code c)"
  using code_less_256 [of c] by (auto simp: py_upper_chr_def Let_def code_char_of)

lemma char_eq_code: "c = d \<longleftrightarrow> code c = code d"
  by simp

lemma is_alpha_code: "is_alpha c \<longleftrightarrow> (65 \<le> code c \<and> code c \<le> 90) \<or> (97 \<le> code c \<and> code c \<le> 122)"
  by (simp add: is_alpha_def in_range_def)

lemma is_digit_code: "is_digit c \<longleftrightarrow> 48 \<le> code c \<and> code c \<le> 57"
  by (simp add: is_digit_def in_range_def)

lemma lower_cases:
  "py_lower_chr c = c \<or> (is_alpha c \<and> is_alpha (py_lower_chr c)) \<or>
   (128 \<le> code c \<and> 128 \<le> code (py_lower_chr c))"
  unfolding char_eq_code is_alpha_code code_lower by auto

lemma upper_cases:
  "py_upper_chr c = c \<or> (is_alpha c \<and> is_alpha (py_upper_chr c)) \<or>
   (128 \<le> code c \<and> 128 \<le> code (py_upper_chr c))"
  unfolding char_eq_code is_alpha_code code_upper by auto

lemma case_closed_ascii:
  assumes "\<And>c. is_alpha c \<Longrightarrow> P c" and "\<And>c. P c \<Longrightarrow> code c < 128"
  shows "P (py_lower_chr c) \<longleftrightarrow> P c" and "P (py_upper_chr c) \<longleftrightarrow> P c"
  using lower_cases [of c] upper_cases [of c] assms by (metis not_less)+

lemma alpha_ascii: "is_alpha c \<Longrightarrow> code c < 128"
  by (auto simp: is_alpha_code)

lemma py_upper_chr_alpha_iff [simp]: "is_alpha (py_upper_chr c) \<longleftrightarrow> is_alpha c"
  unfolding is_alpha_code code_upper by auto

lemma alpha_not_space: "is_alpha c \<Longrightarrow> \<not> py_isspace c"
  by (auto simp: is_alpha_code py_isspace_def Let_def)

lemma py_lower_eq_Nil [simp]: "py_lower u = [] \<longleftrightarrow> u = []"
  by (simp add: py_lower_def)

lemma ascii_fixed:
  "\<not> is_alpha c \<Longrightarrow> code c < 128 \<Longrightarrow> py_lower_chr c = c \<and> py_upper_chr c = c"
  using lower_cases [of c] upper_cases [of c] by auto

lemma splitlines_acc_no_break:
  "list_all (\<lambda>c. \<not> is_linebreak c) s \<Longrightarrow>
   splitlines_acc cur s = (if cur @ s = [] then [] else [cur @ s])"
proof (induction s arbitrary: cur)
  case (Cons c s)
  have "c \<noteq> CR" using Cons.prems by (auto simp: CR_def is_linebreak_def code_def)
  with Cons show ?case by simp
qed simp

lemma splitlines_acc_final_LF:
  "list_all (\<lambda>c. \<not> is_linebreak c) s \<Longrightarrow> splitlines_acc cur (s @ [LF]) = [cur @ s]"
proof (induction s arbitrary: cur)
  case Nil
  have "LF \<noteq> CR" "is_linebreak LF" by (simp_all add: LF_def CR_def is_linebreak_def code_def)
  then show ?case by simp
next
  case (Cons c s)
  have "c \<noteq> CR" using Cons.prems by (auto simp: CR_def is_linebreak_def code_def)
  with Cons show ?case by simp
qed

end
