(* ===== verification/Py_Regex.thy ===== *)
theory Py_Regex
  imports Prelude
begin

text \<open>
  The fragment of Python's \<open>re\<close> module that the program's four patterns use
  (\<open>src/improved_auto_reply.py\<close>, lines 50-54, 94 and 199/206), with \<open>search\<close>,
  \<open>match\<close>, \<open>group(1)\<close> and \<open>sub\<close>. A pattern is a list of
  nodes: a character class repeated between a minimum and an optional maximum number of
  times (greedy, as every quantifier of the source is), the anchors \<open>^\<close> and \<open>$\<close>,
  and the two ends of capturing group 1. A single character is a class repeated exactly
  once. \<open>bt\<close> is the backtracking matcher of CPython's \<open>sre\<close> engine on this
  fragment: a greedy repeat first takes the longest run of the class and gives characters
  back one at a time until the rest of the pattern matches. \<open>results\<close> is the
  declarative semantics: every end position and capture list of any way of matching. The
  lemmas \<open>bt_None_iff\<close> and \<open>bt_sound\<close> show that the matcher finds a match exactly
  when one exists and that what it returns is one of them; \<open>search_from_SomeE\<close> and
  \<open>search_from_None\<close> show that a search returns the leftmost start that matches.
  \<open>re_sub\<close> is the substitution loop, with the rule that a search right after an
  empty match must advance; it always returns (\<open>re_sub_terminates\<close>).
\<close>

subsection \<open>Syntax\<close>

datatype cls_item = Rng char char | Chr char | Space

type_synonym cls = "cls_item list"

datatype node =
    Rep cls nat "nat option"
  | Bol
  | Eol
  | Open
  | Close

text \<open>A compiled pattern: \<open>re.compile(prog, re.I if ignorecase else 0)\<close>.\<close>

record regex =
  ignorecase :: bool
  prog :: "node list"

definition lit :: "string \<Rightarrow> node list" where
  "lit s = map (\<lambda>c. Rep [Chr c] 1 (Some 1)) s"

subsection \<open>Character classes\<close>

fun in_item :: "cls_item \<Rightarrow> char \<Rightarrow> bool" where
  "in_item (Rng lo hi) c = in_range lo hi c"
| "in_item (Chr d) c = (c = d)"
| "in_item Space c = py_isspace c"

definition in_cls0 :: "cls \<Rightarrow> char \<Rightarrow> bool" where
  "in_cls0 cl c \<longleftrightarrow> list_ex (\<lambda>it. in_item it c) cl"

text \<open>Under \<open>re.I\<close> a character matches a class when it or its lower or upper case
  does (\<open>sre\<close>'s \<open>IN_UNI_IGNORE\<close>/\<open>LITERAL_UNI_IGNORE\<close>).\<close>

definition in_cls :: "bool \<Rightarrow> cls \<Rightarrow> char \<Rightarrow> bool" where
  "in_cls ci cl c \<longleftrightarrow>
     in_cls0 cl c \<or> (ci \<and> (in_cls0 cl (py_lower_chr c) \<or> in_cls0 cl (py_upper_chr c)))"

subsection \<open>The backtracking matcher\<close>

fun within :: "nat option \<Rightarrow> nat \<Rightarrow> bool" where
  "within None k = True"
| "within (Some n) k = (k \<le> n)"

fun rep_max :: "nat option \<Rightarrow> nat \<Rightarrow> nat" where
  "rep_max None r = r"
| "rep_max (Some n) r = min n r"

text \<open>\<open>greedy f m k\<close> tries the counts \<open>k, k - 1, \<dots>, m\<close> in this order and returns the
  first result of the continuation \<open>f\<close>.\<close>

fun greedy :: "(nat \<Rightarrow> 'r option) \<Rightarrow> nat \<Rightarrow> nat \<Rightarrow> 'r option" where
  "greedy f m 0 = (if m = 0 then f 0 else None)"
| "greedy f m (Suc k) =
     (if Suc k < m then None
      else (case f (Suc k) of None \<Rightarrow> greedy f m k | Some r \<Rightarrow> Some r))"

text \<open>\<open>bt ci ns xs i\<close> matches the nodes \<open>ns\<close> against the remaining input \<open>xs\<close>,
  which starts at position \<open>i\<close> of the subject; it returns the end position and the
  positions recorded at \<open>Open\<close> and \<open>Close\<close>.\<close>

fun bt :: "bool \<Rightarrow> node list \<Rightarrow> string \<Rightarrow> nat \<Rightarrow> (nat \<times> nat list) option" where
  "bt ci [] xs i = Some (i, [])"
| "bt ci (Rep cl m mx # ns) xs i =
     greedy (\<lambda>k. bt ci ns (drop k xs) (i + k)) m
       (rep_max mx (length (takeWhile (in_cls ci cl) xs)))"
| "bt ci (Bol # ns) xs i = (if i = 0 then bt ci ns xs i else None)"
| "bt ci (Eol # ns) xs i = (if xs = [] \<or> xs = [LF] then bt ci ns xs i else None)"
| "bt ci (Open # ns) xs i = map_option (\<lambda>(j, cs). (j, i # cs)) (bt ci ns xs i)"
| "bt ci (Close # ns) xs i = map_option (\<lambda>(j, cs). (j, i # cs)) (bt ci ns xs i)"

text \<open>\<open>pattern.search(s)\<close>: the first start position, from the left, at which the pattern
  matches; the result is the start, the end and the captures.\<close>

fun search_from :: "bool \<Rightarrow> node list \<Rightarrow> string \<Rightarrow> nat \<Rightarrow> (nat \<times> nat \<times> nat list) option" where
  "search_from ci ns [] i = map_option (\<lambda>(j, cs). (i, j, cs)) (bt ci ns [] i)"
| "search_from ci ns (x # xs) i =
     (case bt ci ns (x # xs) i of
        Some (j, cs) \<Rightarrow> Some (i, j, cs)
      | None \<Rightarrow> search_from ci ns xs (Suc i))"

definition re_search :: "regex \<Rightarrow> string \<Rightarrow> (nat \<times> nat \<times> nat list) option" where
  "re_search r s = search_from (ignorecase r) (prog r) s 0"

text \<open>\<open>pattern.match(s)\<close>: a match anchored at the start of \<open>s\<close>.\<close>

definition re_match :: "regex \<Rightarrow> string \<Rightarrow> (nat \<times> nat list) option" where
  "re_match r s = bt (ignorecase r) (prog r) s 0"

definition substr :: "string \<Rightarrow> nat \<Rightarrow> nat \<Rightarrow> string" where
  "substr s a b = take (b - a) (drop a s)"

text \<open>\<open>m.group(1)\<close> of a search result on subject \<open>s\<close>.\<close>

fun group1 :: "string \<Rightarrow> nat \<times> nat \<times> nat list \<Rightarrow> string option" where
  "group1 s (_, _, a # b # _) = Some (substr s a b)"
| "group1 s _ = None"

subsection \<open>Declarative semantics\<close>

fun results :: "bool \<Rightarrow> node list \<Rightarrow> string \<Rightarrow> nat \<Rightarrow> (nat \<times> nat list) set" where
  "results ci [] xs i = {(i, [])}"
| "results ci (Rep cl m mx # ns) xs i =
     (\<Union>k \<in> {k. m \<le> k \<and> within mx k \<and> k \<le> length xs \<and> list_all (in_cls ci cl) (take k xs)}.
        results ci ns (drop k xs) (i + k))"
| "results ci (Bol # ns) xs i = (if i = 0 then results ci ns xs i else {})"
| "results ci (Eol # ns) xs i = (if xs = [] \<or> xs = [LF] then results ci ns xs i else {})"
| "results ci (Open # ns) xs i = (\<lambda>(j, cs). (j, i # cs)) ` results ci ns xs i"
| "results ci (Close # ns) xs i = (\<lambda>(j, cs). (j, i # cs)) ` results ci ns xs i"

subsection \<open>re.sub\<close>

text \<open>\<open>pattern.sub(repl, s)\<close> as CPython's \<open>pattern_subx\<close> computes it (Python 3.7 and
  later): search from the end of the previous match; copy the text before the match and
  the replacement; after an empty match the next search must advance, i.e. a match at
  the same position must not be empty (\<open>state->must_advance\<close>, checked when the
  pattern succeeds, so the matcher backtracks to a longer match). \<open>bta ok\<close> is \<open>bt\<close>
  with that acceptance test on the end position; \<open>search_adv\<close> applies it at the first
  position only, as \<open>sre_search\<close> does. The loop is a \<open>partial_function\<close>, so that
  it returns is a theorem (\<open>re_sub_terminates\<close>). The replacement is a literal string: the program passes
  \<open>""\<close>, and group references in templates are outside the model.\<close>

fun bta :: "(nat \<Rightarrow> bool) \<Rightarrow> bool \<Rightarrow> node list \<Rightarrow> string \<Rightarrow> nat \<Rightarrow> (nat \<times> nat list) option" where
  "bta ok ci [] xs i = (if ok i then Some (i, []) else None)"
| "bta ok ci (Rep cl m mx # ns) xs i =
     greedy (\<lambda>k. bta ok ci ns (drop k xs) (i + k)) m
       (rep_max mx (length (takeWhile (in_cls ci cl) xs)))"
| "bta ok ci (Bol # ns) xs i = (if i = 0 then bta ok ci ns xs i else None)"
| "bta ok ci (Eol # ns) xs i = (if xs = [] \<or> xs = [LF] then bta ok ci ns xs i else None)"
| "bta ok ci (Open # ns) xs i = map_option (\<lambda>(j, cs). (j, i # cs)) (bta ok ci ns xs i)"
| "bta ok ci (Close # ns) xs i = map_option (\<lambda>(j, cs). (j, i # cs)) (bta ok ci ns xs i)"

definition search_adv :: "bool \<Rightarrow> bool \<Rightarrow> node list \<Rightarrow> string \<Rightarrow> nat \<Rightarrow> (nat \<times> nat \<times> nat list) option" where
  "search_adv must_advance ci ns xs i =
     (case bta (\<lambda>j. \<not> must_advance \<or> j \<noteq> i) ci ns xs i of
        Some (j, cs) \<Rightarrow> Some (i, j, cs)
      | None \<Rightarrow> (case xs of [] \<Rightarrow> None | _ # ys \<Rightarrow> search_from ci ns ys (Suc i)))"

partial_function (option) sub_loop ::
    "bool \<Rightarrow> node list \<Rightarrow> string \<Rightarrow> string \<Rightarrow> nat \<Rightarrow> bool \<Rightarrow> string \<Rightarrow> string option" where
  "sub_loop ci ns repl s i must_advance acc =
     (case search_adv must_advance ci ns (drop i s) i of
        None \<Rightarrow> Some (acc @ drop i s)
      | Some (b, e, _) \<Rightarrow> sub_loop ci ns repl s e (e = b) (acc @ substr s i b @ repl))"

definition re_sub :: "regex \<Rightarrow> string \<Rightarrow> string \<Rightarrow> string option" where
  "re_sub r repl s = sub_loop (ignorecase r) (prog r) repl s 0 False []"

subsection \<open>Character classes under re.I\<close>

text \<open>Classes made of ASCII characters that contain every letter with its other case are
  not changed by \<open>re.I\<close>; a class of one non-letter ASCII character below \<open>A\<close> neither;
  a lower-case letter under \<open>re.I\<close> matches exactly the characters whose lower case it is.\<close>

lemma in_cls_closed:
  assumes "\<And>c. is_alpha c \<Longrightarrow> in_cls0 cl c" and "\<And>c. in_cls0 cl c \<Longrightarrow> code c < 128"
  shows "in_cls ci cl c \<longleftrightarrow> in_cls0 cl c"
  using case_closed_ascii [of "in_cls0 cl", OF assms] by (auto simp: in_cls_def)

lemma in_cls0_single: "in_cls0 [Chr d] c \<longleftrightarrow> c = d"
  by (simp add: in_cls0_def)

lemma in_cls_punct:
  assumes "code d < 65"
  shows "in_cls ci [Chr d] c \<longleftrightarrow> c = d"
proof -
  have low: "py_lower_chr c = d \<Longrightarrow> c = d"
    using lower_cases [of c] assms by (auto simp: is_alpha_code)
  have up: "py_upper_chr c = d \<Longrightarrow> c = d"
    using upper_cases [of c] assms by (auto simp: is_alpha_code)
  show ?thesis
    using low up by (auto simp: in_cls_def in_cls0_single)
qed

lemma in_cls_letter:
  assumes "97 \<le> code d" "code d \<le> 122"
  shows "in_cls True [Chr d] c \<longleftrightarrow> py_lower_chr c = d"
proof -
  have fix_d: "py_lower_chr d = d"
    using assms by (simp add: char_eq_code code_lower)
  have up: "py_upper_chr c = d \<Longrightarrow> c = d"
  proof -
    assume "py_upper_chr c = d"
    then have "code (py_upper_chr c) = code d" by simp
    with assms show "c = d"
      unfolding code_upper char_eq_code by (auto split: if_splits)
  qed
  show ?thesis
    using fix_d up by (auto simp: in_cls_def in_cls0_single)
qed

subsection \<open>The greedy loop\<close>

lemma greedy_None_iff:
  "greedy f m k = None \<longleftrightarrow> (\<forall>j. m \<le> j \<and> j \<le> k \<longrightarrow> f j = None)"
proof (induction k)
  case 0
  then show ?case by auto
next
  case (Suc k)
  show ?case
  proof (cases "f (Suc k)")
    case None
    with Suc.IH show ?thesis by (auto simp: le_Suc_eq)
  next
    case (Some r)
    then show ?thesis by (auto simp: le_Suc_eq not_less intro!: exI [of _ "Suc k"])
  qed
qed

lemma greedy_Some:
  "greedy f m k = Some r \<Longrightarrow>
   \<exists>j. m \<le> j \<and> j \<le> k \<and> f j = Some r \<and> (\<forall>j'. j < j' \<and> j' \<le> k \<longrightarrow> f j' = None)"
proof (induction k)
  case 0
  then show ?case by (auto split: if_splits)
next
  case (Suc k)
  show ?case
  proof (cases "f (Suc k)")
    case None
    with Suc.prems have "greedy f m k = Some r"
      by (simp split: if_splits)
    with Suc.IH None show ?thesis
      by (metis le_SucI le_Suc_eq)
  next
    case (Some r')
    with Suc.prems show ?thesis by (auto split: if_splits intro!: exI [of _ "Suc k"])
  qed
qed

lemma rep_max_iff:
  "k \<le> rep_max mx r \<longleftrightarrow> within mx k \<and> k \<le> r"
  by (cases mx) auto

lemma rep_count_iff:
  "m \<le> k \<and> k \<le> rep_max mx (length (takeWhile P xs)) \<longleftrightarrow>
   m \<le> k \<and> within mx k \<and> k \<le> length xs \<and> list_all P (take k xs)"
  using list_all_take_takeWhile [of k xs P] rep_max_iff [of k mx] by blast

subsection \<open>Soundness and completeness of the matcher\<close>

lemma bt_sound: "bt ci ns xs i = Some r \<Longrightarrow> r \<in> results ci ns xs i"
proof (induction ci ns xs i arbitrary: r rule: bt.induct)
  case (2 ci cl m mx ns xs i)
  then obtain k where k: "m \<le> k" "k \<le> rep_max mx (length (takeWhile (in_cls ci cl) xs))"
      and ok: "bt ci ns (drop k xs) (i + k) = Some r"
    by (auto dest: greedy_Some)
  from k have "within mx k \<and> k \<le> length xs \<and> list_all (in_cls ci cl) (take k xs)"
    using rep_count_iff by blast
  moreover from ok "2.IH" have "r \<in> results ci ns (drop k xs) (i + k)"
    by blast
  ultimately show ?case using k(1) by auto
qed (auto split: if_splits)

lemma bt_complete: "results ci ns xs i \<noteq> {} \<Longrightarrow> bt ci ns xs i \<noteq> None"
proof (induction ci ns xs i rule: bt.induct)
  case (2 ci cl m mx ns xs i)
  then obtain k where "m \<le> k" "within mx k" "k \<le> length xs"
      "list_all (in_cls ci cl) (take k xs)" "results ci ns (drop k xs) (i + k) \<noteq> {}"
    by auto
  with "2.IH" show ?case by (auto simp: greedy_None_iff rep_count_iff)
qed (auto split: if_splits)

lemma bt_None_iff: "bt ci ns xs i = None \<longleftrightarrow> results ci ns xs i = {}"
  using bt_sound bt_complete by fastforce

subsection \<open>Structure of the results\<close>

lemma results_Rep_iff:
  "r \<in> results ci (Rep cl m mx # ns) xs i \<longleftrightarrow>
   (\<exists>u v. xs = u @ v \<and> m \<le> length u \<and> within mx (length u) \<and>
          list_all (in_cls ci cl) u \<and> r \<in> results ci ns v (i + length u))"
proof
  assume "r \<in> results ci (Rep cl m mx # ns) xs i"
  then obtain k where "m \<le> k" "within mx k" "k \<le> length xs"
      "list_all (in_cls ci cl) (take k xs)" "r \<in> results ci ns (drop k xs) (i + k)"
    by auto
  then show "\<exists>u v. xs = u @ v \<and> m \<le> length u \<and> within mx (length u) \<and>
          list_all (in_cls ci cl) u \<and> r \<in> results ci ns v (i + length u)"
    by (intro exI [of _ "take k xs"] exI [of _ "drop k xs"]) (simp add: min_absorb2)
next
  assume "\<exists>u v. xs = u @ v \<and> m \<le> length u \<and> within mx (length u) \<and>
          list_all (in_cls ci cl) u \<and> r \<in> results ci ns v (i + length u)"
  then show "r \<in> results ci (Rep cl m mx # ns) xs i"
    by (force simp del: list_all_iff)
qed

lemma mem_push_cap [simp]:
  "(j, cs) \<in> (\<lambda>(j, cs). (j, i # cs)) ` S \<longleftrightarrow> (\<exists>cs'. cs = i # cs' \<and> (j, cs') \<in> S)"
  by force

lemma results_le: "(j, cs) \<in> results ci ns xs i \<Longrightarrow> i \<le> j \<and> j \<le> i + length xs"
proof (induction ci ns xs i arbitrary: j cs rule: results.induct)
  case (2 ci cl m mx ns xs i)
  then show ?case by fastforce
qed (auto split: if_splits)

lemma results_append:
  "r \<in> results ci (ns1 @ ns2) xs i \<longleftrightarrow>
   (\<exists>j cs1 k cs2. (j, cs1) \<in> results ci ns1 xs i \<and>
      (k, cs2) \<in> results ci ns2 (drop (j - i) xs) j \<and> r = (k, cs1 @ cs2))"
proof (induction ns1 arbitrary: xs i r)
  case Nil
  then show ?case by (cases r) auto
next
  case (Cons n ns)
  have drop_split: "drop (j - i) (u @ v) = drop (j - (i + length u)) v"
    if "i + length u \<le> j" for u v :: string and j
    using that by (simp add: drop_append)
  show ?case
  proof (cases n)
    case (Rep cl m mx)
    show ?thesis
    proof
      assume "r \<in> results ci ((n # ns) @ ns2) xs i"
      then obtain u v where uv: "xs = u @ v" "m \<le> length u" "within mx (length u)"
          "list_all (in_cls ci cl) u" "r \<in> results ci (ns @ ns2) v (i + length u)"
        unfolding Rep append_Cons results_Rep_iff by blast
      from uv(5) Cons.IH obtain j cs1 k cs2 where
          j: "(j, cs1) \<in> results ci ns v (i + length u)"
          and k: "(k, cs2) \<in> results ci ns2 (drop (j - (i + length u)) v) j"
          and r: "r = (k, cs1 @ cs2)"
        by blast
      from j have le: "i + length u \<le> j" by (auto dest: results_le)
      show "\<exists>j cs1 k cs2. (j, cs1) \<in> results ci (n # ns) xs i \<and>
          (k, cs2) \<in> results ci ns2 (drop (j - i) xs) j \<and> r = (k, cs1 @ cs2)"
      proof (intro exI conjI)
        show "(j, cs1) \<in> results ci (n # ns) xs i"
          unfolding Rep results_Rep_iff using uv j by blast
        show "(k, cs2) \<in> results ci ns2 (drop (j - i) xs) j"
          using k uv(1) drop_split [OF le] by simp
      qed (rule r)
    next
      assume "\<exists>j cs1 k cs2. (j, cs1) \<in> results ci (n # ns) xs i \<and>
          (k, cs2) \<in> results ci ns2 (drop (j - i) xs) j \<and> r = (k, cs1 @ cs2)"
      then obtain j cs1 k cs2 where j0: "(j, cs1) \<in> results ci (n # ns) xs i"
          and k: "(k, cs2) \<in> results ci ns2 (drop (j - i) xs) j" and r: "r = (k, cs1 @ cs2)"
        by blast
      from j0 obtain u v where uv: "xs = u @ v" "m \<le> length u" "within mx (length u)"
          "list_all (in_cls ci cl) u" and j: "(j, cs1) \<in> results ci ns v (i + length u)"
        unfolding Rep results_Rep_iff by blast
      from j have le: "i + length u \<le> j" by (auto dest: results_le)
      with uv(1) k have "(k, cs2) \<in> results ci ns2 (drop (j - (i + length u)) v) j"
        by (simp add: drop_split)
      with j r Cons.IH have "r \<in> results ci (ns @ ns2) v (i + length u)"
        by blast
      with uv show "r \<in> results ci ((n # ns) @ ns2) xs i"
        unfolding Rep append_Cons results_Rep_iff by blast
    qed
  next
    case Bol
    then show ?thesis using Cons.IH by (cases "i = 0") simp_all
  next
    case Eol
    then show ?thesis using Cons.IH by (cases "xs = [] \<or> xs = [LF]") simp_all
  next
    case Open
    then show ?thesis by (cases r) (auto simp: Cons.IH; metis append_Cons)
  next
    case Close
    then show ?thesis by (cases r) (auto simp: Cons.IH; metis append_Cons)
  qed
qed

lemma results_RepI:
  "list_all (in_cls ci cl) u \<Longrightarrow> m \<le> length u \<Longrightarrow> within mx (length u) \<Longrightarrow>
   r \<in> results ci ns v (i + length u) \<Longrightarrow> r \<in> results ci (Rep cl m mx # ns) (u @ v) i"
  unfolding results_Rep_iff by blast

lemma no_caps_results:
  "list_all (\<lambda>n. n \<noteq> Open \<and> n \<noteq> Close) ns \<Longrightarrow> (j, cs) \<in> results ci ns xs i \<Longrightarrow> cs = []"
proof (induction ci ns xs i arbitrary: j cs rule: results.induct)
  case (2 ci cl m mx ns xs i)
  then show ?case by fastforce
qed (auto split: if_splits)

lemma results_Eol: "results ci [Eol] v j = (if v = [] \<or> v = [LF] then {(j, [])} else {})"
  by simp

subsection \<open>Search\<close>

lemma all_le_Suc_split:
  "(\<forall>p \<le> Suc n. P p) \<longleftrightarrow> P 0 \<and> (\<forall>p \<le> n. P (Suc p))"
  by (metis Suc_le_mono le0 not0_implies_Suc)

lemma search_from_SomeE:
  assumes "search_from ci ns xs i = Some (a, j, cs)"
  shows "i \<le> a \<and> a \<le> i + length xs \<and> bt ci ns (drop (a - i) xs) a = Some (j, cs) \<and>
         (\<forall>p. i \<le> p \<and> p < a \<longrightarrow> bt ci ns (drop (p - i) xs) p = None)"
  using assms
proof (induction ci ns xs i rule: search_from.induct)
  case (1 ci ns i)
  then show ?case by auto
next
  case (2 ci ns x xs i)
  show ?case
  proof (cases "bt ci ns (x # xs) i")
    case None
    with "2.prems" have rec: "search_from ci ns xs (Suc i) = Some (a, j, cs)" by simp
    have IH: "Suc i \<le> a \<and> a \<le> Suc i + length xs \<and> bt ci ns (drop (a - Suc i) xs) a = Some (j, cs) \<and>
          (\<forall>p. Suc i \<le> p \<and> p < a \<longrightarrow> bt ci ns (drop (p - Suc i) xs) p = None)"
      using "2.IH" [OF None rec] .
    have dr: "drop (p - i) (x # xs) = drop (p - Suc i) xs" if "Suc i \<le> p" for p
      using that by (simp add: Suc_diff_Suc [symmetric])
    have earlier: "bt ci ns (drop (p - i) (x # xs)) p = None" if "i \<le> p" "p < a" for p
    proof (cases "p = i")
      case True
      with None show ?thesis by simp
    next
      case False
      with that have "Suc i \<le> p" by simp
      with IH that dr [OF this] show ?thesis by simp
    qed
    from IH have "bt ci ns (drop (a - i) (x # xs)) a = Some (j, cs)"
      by (simp add: dr)
    with IH earlier show ?thesis by simp
  next
    case (Some r)
    with "2.prems" show ?thesis by (auto split: prod.splits)
  qed
qed

lemma search_from_None:
  "search_from ci ns xs i = None \<longleftrightarrow> (\<forall>p \<le> length xs. bt ci ns (drop p xs) (i + p) = None)"
proof (induction ci ns xs i rule: search_from.induct)
  case (1 ci ns i)
  then show ?case by (auto split: prod.splits)
next
  case (2 ci ns x xs i)
  show ?case
  proof (cases "bt ci ns (x # xs) i")
    case None
    then show ?thesis
      using "2.IH" [OF None] by (simp add: all_le_Suc_split)
  next
    case (Some r)
    then show ?thesis
      by (auto split: prod.splits intro: exI [of _ 0])
  qed
qed

subsection \<open>Running the matcher over known input\<close>

text \<open>How \<open>bt\<close> consumes a maximal run of a repeated class, a literal, and an
  unmatched prefix of the subject; the pattern-specific proofs of \<open>Extract\<close> are chains
  of these steps.\<close>

lemma greedy_first_success:
  "m \<le> k' \<Longrightarrow> k' \<le> k \<Longrightarrow> f k' = Some r \<Longrightarrow> (\<forall>j. k' < j \<and> j \<le> k \<longrightarrow> f j = None) \<Longrightarrow>
   greedy f m k = Some r"
proof (induction k)
  case 0
  then show ?case by simp
next
  case (Suc k)
  show ?case
  proof (cases "k' = Suc k")
    case True
    with Suc.prems show ?thesis by simp
  next
    case False
    with Suc.prems have "k' \<le> k" "f (Suc k) = None" by auto
    with Suc show ?thesis by auto
  qed
qed

lemma bt_Rep_run:
  assumes "list_all (in_cls ci cl) u" "v = [] \<or> \<not> in_cls ci cl (hd v)" "m \<le> length u"
    and "bt ci ns v (i + length u) = Some r"
  shows "bt ci (Rep cl m None # ns) (u @ v) i = Some r"
proof -
  have "takeWhile (in_cls ci cl) (u @ v) = u"
    using assms(1,2) by (rule takeWhile_append_stop)
  then have "bt ci (Rep cl m None # ns) (u @ v) i =
      greedy (\<lambda>k. bt ci ns (drop k (u @ v)) (i + k)) m (length u)"
    by simp
  also have "\<dots> = Some r"
    by (rule greedy_first_success [of m "length u"]) (use assms(3,4) in auto)
  finally show ?thesis .
qed

lemma lit_Cons: "lit (d # w) @ ns = Rep [Chr d] 1 (Some 1) # (lit w @ ns)"
  by (simp add: lit_def)

lemma lit_Nil: "lit [] @ ns = ns"
  by (simp add: lit_def)

lemma greedy_one: "greedy f (Suc 0) (Suc 0) = f (Suc 0)"
  by (cases "f (Suc 0)") auto

lemma bt_single:
  "in_cls ci [Chr d] x \<Longrightarrow> bt ci (Rep [Chr d] 1 (Some 1) # ns) (x # v) i = bt ci ns v (Suc i)"
  by (simp add: greedy_one del: greedy.simps)

lemma bt_single_fail:
  "v = [] \<or> \<not> in_cls ci [Chr d] (hd v) \<Longrightarrow> bt ci (Rep [Chr d] 1 (Some 1) # ns) v i = None"
  by (cases v) auto

lemma bt_lit:
  "list_all2 (\<lambda>x d. in_cls ci [Chr d] x) u w \<Longrightarrow>
   bt ci (lit w @ ns) (u @ v) i = bt ci ns v (i + length w)"
proof (induction u w arbitrary: i rule: list_all2_induct)
  case Nil
  then show ?case by (simp add: lit_Nil)
next
  case (Cons x u d w)
  then show ?case by (simp add: lit_Cons greedy_one del: greedy.simps)
qed

lemma bt_lit_len:
  "list_all2 (\<lambda>x d. in_cls ci [Chr d] x) u w \<Longrightarrow>
   bt ci (lit w @ ns) (u @ v) i = bt ci ns v (i + length u)"
  by (simp add: bt_lit list_all2_lengthD)

lemma results_lit:
  "r \<in> results ci (lit w @ ns) xs i \<Longrightarrow>
   \<exists>u v. xs = u @ v \<and> list_all2 (\<lambda>x d. in_cls ci [Chr d] x) u w \<and> r \<in> results ci ns v (i + length w)"
proof (induction w arbitrary: xs i)
  case Nil
  then show ?case by (simp add: lit_Nil)
next
  case (Cons d w)
  from Cons.prems obtain u v where uv: "xs = u @ v" "1 \<le> length u" "within (Some 1) (length u)"
      "list_all (in_cls ci [Chr d]) u" "r \<in> results ci (lit w @ ns) v (i + length u)"
    unfolding lit_Cons results_Rep_iff by blast
  from uv(2,3) obtain x where u: "u = [x]" by (cases u) auto
  from uv(5) u have "r \<in> results ci (lit w @ ns) v (Suc i)" by simp
  from Cons.IH [OF this] obtain u' v' where "v = u' @ v'"
      "list_all2 (\<lambda>x d. in_cls ci [Chr d] x) u' w" "r \<in> results ci ns v' (Suc i + length w)"
    by blast
  with uv u show ?case
    by (intro exI [of _ "x # u'"] exI [of _ v']) auto
qed

lemma search_from_skip:
  "(\<forall>p < length pre. bt ci ns (drop p (pre @ ys)) (i + p) = None) \<Longrightarrow>
   search_from ci ns (pre @ ys) i = search_from ci ns ys (i + length pre)"
proof (induction pre arbitrary: i)
  case Nil
  then show ?case by simp
next
  case (Cons x pre)
  from Cons.prems [rule_format, of 0] have "bt ci ns (x # pre @ ys) i = None" by simp
  moreover have "\<forall>p < length pre. bt ci ns (drop p (pre @ ys)) (Suc i + p) = None"
  proof (intro allI impI)
    fix p
    assume "p < length pre"
    then have "Suc p < length (x # pre)" by simp
    from Cons.prems [rule_format, OF this]
    show "bt ci ns (drop p (pre @ ys)) (Suc i + p) = None" by simp
  qed
  ultimately show ?case using Cons.IH [of "Suc i"] by simp
qed

lemma alpha_not_in_space: "is_alpha c \<Longrightarrow> \<not> in_cls ci [Space] c"
  using alpha_not_space [of c] alpha_not_space [of "py_lower_chr c"] alpha_not_space [of "py_upper_chr c"]
  by (auto simp: in_cls_def in_cls0_def)

lemma in_cls_lower_list:
  assumes "\<forall>d \<in> set w. 97 \<le> code d \<and> code d \<le> 122"
  shows "list_all2 (\<lambda>x d. in_cls True [Chr d] x) u w \<longleftrightarrow> py_lower u = w"
  using assms
proof (induction w arbitrary: u)
  case Nil
  then show ?case by auto
next
  case (Cons d w)
  then show ?case by (cases u) (auto simp: in_cls_letter)
qed

subsection \<open>re.sub returns\<close>

lemma bta_True: "bta (\<lambda>_. True) ci ns xs i = bt ci ns xs i"
  by (induction ci ns xs i rule: bt.induct) simp_all

lemma bta_Some: "bta ok ci ns xs i = Some (j, cs) \<Longrightarrow> ok j \<and> i \<le> j \<and> j \<le> i + length xs"
proof (induction ok ci ns xs i arbitrary: j cs rule: bta.induct)
  case (2 ok ci cl m mx ns xs i)
  then obtain k where k: "k \<le> rep_max mx (length (takeWhile (in_cls ci cl) xs))"
      and r: "bta ok ci ns (drop k xs) (i + k) = Some (j, cs)"
    by (auto dest: greedy_Some)
  have "k \<le> length xs" using k rep_max_iff [of k mx] length_takeWhile_le [of "in_cls ci cl" xs] by auto
  then show ?case using "2.IH" [OF r] by auto
qed (auto split: if_splits)

lemma search_adv_Some:
  assumes "search_adv adv ci ns xs i = Some (b, e, cs)"
  shows "i \<le> b \<and> b \<le> e \<and> e \<le> i + length xs \<and> (adv \<longrightarrow> i < e)"
proof (cases "bta (\<lambda>j. \<not> adv \<or> j \<noteq> i) ci ns xs i")
  case (Some r)
  with assms have b: "b = i" and m: "bta (\<lambda>j. \<not> adv \<or> j \<noteq> i) ci ns xs i = Some (e, cs)"
    by (auto simp: search_adv_def split: prod.splits)
  then show ?thesis using bta_Some [OF m] by auto
next
  case None
  then obtain x ys where xs: "xs = x # ys" and s: "search_from ci ns ys (Suc i) = Some (b, e, cs)"
    using assms by (auto simp: search_adv_def split: list.splits)
  then have "Suc i \<le> b" "b \<le> Suc i + length ys" and m: "bt ci ns (drop (b - Suc i) ys) b = Some (e, cs)"
    using search_from_SomeE [OF s] by auto
  moreover have "b \<le> e \<and> e \<le> b + length (drop (b - Suc i) ys)"
    using results_le [OF bt_sound [OF m]] .
  ultimately show ?thesis using xs by auto
qed

lemma sub_loop_total: "\<exists>y. sub_loop ci ns repl s i adv acc = Some y"
proof (induction "2 * (length s - i) + (if adv then 0 else 1)" arbitrary: i adv acc rule: less_induct)
  case less
  show ?case
  proof (cases "search_adv adv ci ns (drop i s) i")
    case None
    then show ?thesis by (simp add: sub_loop.simps)
  next
    case (Some r)
    then obtain b e cs where r: "search_adv adv ci ns (drop i s) i = Some (b, e, cs)"
      by (cases r) auto
    have bd: "i \<le> b" "b \<le> e" "e \<le> i + length (drop i s)" "adv \<longrightarrow> i < e"
      using search_adv_Some [OF r] by auto
    have "2 * (length s - e) + (if e = b then 0 else 1) < 2 * (length s - i) + (if adv then 0 else 1)"
      using bd by (cases "i < e") auto
    then obtain y where "sub_loop ci ns repl s e (e = b) (acc @ substr s i b @ repl) = Some y"
      using less by blast
    then show ?thesis using r by (simp add: sub_loop.simps)
  qed
qed

lemma search_adv_False: "search_adv False ci ns xs i = search_from ci ns xs i"
  by (cases xs) (simp_all add: search_adv_def bta_True split: option.splits)

text \<open>\<open>re.sub\<close> returns for every pattern of the fragment, replacement and subject: each
  search either moves past the previous match or, after an empty match, must advance.\<close>

lemma re_sub_terminates: "\<exists>y. re_sub r repl s = Some y"
  unfolding re_sub_def by (rule sub_loop_total)

end
