(* ===== verification/Extract.thy ===== *)
theory Extract
  imports Py_Regex
begin

text \<open>
  The address extractor of \<open>src/improved_auto_reply.py\<close>: the module-level patterns
  \<open>EMAIL_RE\<close> and \<open>BUSINESS_EMAIL_LINE_RE\<close> (lines 50-54), the inline pattern of
  lines 199 and 206, and \<open>extract_business_email\<close> (lines 181-211) with its two phases:
  a search of the whole body for the labelled pattern, then a scan of the lines that
  mention both words. \<open>email_shaped\<close> is the abstract contract of a syntactically valid
  address (spec section 3): a local part, \<open>@\<close>, a domain and a top-level label of at
  least two letters.
\<close>

subsection \<open>The patterns\<close>

definition local_cls :: cls where
  "local_cls = [Rng CHR ''A'' CHR ''Z'', Rng CHR ''a'' CHR ''z'', Rng CHR ''0'' CHR ''9'',
     Chr CHR ''.'', Chr CHR ''_'', Chr CHR ''%'', Chr CHR ''+'', Chr CHR ''-'']"

definition domain_cls :: cls where
  "domain_cls = [Rng CHR ''A'' CHR ''Z'', Rng CHR ''a'' CHR ''z'', Rng CHR ''0'' CHR ''9'',
     Chr CHR ''.'', Chr CHR ''-'']"

definition alpha_cls :: cls where
  "alpha_cls = [Rng CHR ''A'' CHR ''Z'', Rng CHR ''a'' CHR ''z'']"

text \<open>\<open>[A-Za-z0-9._%+-]+@[A-Za-z0-9.-]+\.[A-Za-z]{2,}\<close>, the body the three patterns
  share.\<close>

definition addr_nodes :: "node list" where
  "addr_nodes =
     [Rep local_cls 1 None, Rep [Chr CHR ''@''] 1 (Some 1), Rep domain_cls 1 None,
      Rep [Chr CHR ''.''] 1 (Some 1), Rep alpha_cls 2 None]"

definition EMAIL_RE :: regex where
  "EMAIL_RE = \<lparr>ignorecase = False, prog = [Bol] @ addr_nodes @ [Eol]\<rparr>"

definition BUSINESS_EMAIL_LINE_RE :: regex where
  "BUSINESS_EMAIL_LINE_RE =
     \<lparr>ignorecase = True,
      prog = lit ''business'' @ [Rep [Space] 0 None] @ lit ''email'' @
             [Rep [Chr CHR '':'', Chr CHR ''-'', Space] 0 None, Open] @ addr_nodes @ [Close]\<rparr>"

text \<open>\<open>re.search(r"([A-Za-z0-9._%+-]+@[A-Za-z0-9.-]+\.[A-Za-z]{2,})", line)\<close>.\<close>

definition ADDR_SEARCH_RE :: regex where
  "ADDR_SEARCH_RE = \<lparr>ignorecase = False, prog = [Open] @ addr_nodes @ [Close]\<rparr>"

text \<open>\<open>EMAIL_RE.match(s)\<close> as a truth value.\<close>

definition email_re_matches :: "string \<Rightarrow> bool" where
  "email_re_matches s \<longleftrightarrow> re_match EMAIL_RE s \<noteq> None"

text \<open>\<open>m = r.search(s)\<close> followed by \<open>m.group(1)\<close> when \<open>m\<close> is truthy.\<close>

definition search_group :: "regex \<Rightarrow> string \<Rightarrow> string option" where
  "search_group r s = (case re_search r s of None \<Rightarrow> None | Some m \<Rightarrow> group1 s m)"

subsection \<open>extract_business_email\<close>

text \<open>Lines 189-193: the labelled pattern over the whole body.\<close>

definition direct_candidate :: "string \<Rightarrow> string option" where
  "direct_candidate body =
     (case search_group BUSINESS_EMAIL_LINE_RE body of
        None \<Rightarrow> None
      | Some g \<Rightarrow> (let candidate = py_strip g in
                   if email_re_matches candidate then Some candidate else None))"

text \<open>Lines 199-203 (and 206-210 for the following line): the first address-shaped token
  of one line, kept when \<open>EMAIL_RE\<close> accepts it.\<close>

definition line_candidate :: "string \<Rightarrow> string option" where
  "line_candidate line =
     (case search_group ADDR_SEARCH_RE line of
        None \<Rightarrow> None
      | Some candidate \<Rightarrow> if email_re_matches candidate then Some candidate else None)"

definition mentions_business_email :: "string \<Rightarrow> bool" where
  "mentions_business_email line \<longleftrightarrow>
     py_in ''business'' (py_lower line) \<and> py_in ''email'' (py_lower line)"

text \<open>Lines 195-211: \<open>for i, line in enumerate(lines)\<close>; the tail of the list is
  \<open>lines[i + 1:]\<close>, so \<open>i + 1 < len(lines)\<close> is the tail being non-empty.\<close>

fun scan_lines :: "string list \<Rightarrow> string option" where
  "scan_lines [] = None"
| "scan_lines (line # rest) =
     (if mentions_business_email line then
        (case line_candidate line of
           Some c \<Rightarrow> Some c
         | None \<Rightarrow>
             (case rest of
                [] \<Rightarrow> scan_lines rest
              | next_line # _ \<Rightarrow>
                  (case line_candidate next_line of
                     Some c \<Rightarrow> Some c
                   | None \<Rightarrow> scan_lines rest)))
      else scan_lines rest)"

definition extract_business_email :: "string \<Rightarrow> string option" where
  "extract_business_email body =
     (if body = [] then None
      else (case direct_candidate body of
              Some c \<Rightarrow> Some c
            | None \<Rightarrow> scan_lines (py_splitlines body)))"

subsection \<open>The abstract contract of an address\<close>

definition local_chr :: "char \<Rightarrow> bool" where
  "local_chr c \<longleftrightarrow> is_alpha c \<or> is_digit c \<or> c \<in> set ''._%+-''"

definition domain_chr :: "char \<Rightarrow> bool" where
  "domain_chr c \<longleftrightarrow> is_alpha c \<or> is_digit c \<or> c \<in> set ''.-''"

definition email_shaped :: "string \<Rightarrow> bool" where
  "email_shaped w \<longleftrightarrow>
     (\<exists>l d t. w = l @ ''@'' @ d @ ''.'' @ t \<and> l \<noteq> [] \<and> list_all local_chr l \<and>
        d \<noteq> [] \<and> list_all domain_chr d \<and> 2 \<le> length t \<and> list_all is_alpha t)"

lemmas extract_defs [py_str] =
  local_cls_def domain_cls_def alpha_cls_def addr_nodes_def EMAIL_RE_def
  BUSINESS_EMAIL_LINE_RE_def ADDR_SEARCH_RE_def email_re_matches_def search_group_def
  direct_candidate_def line_candidate_def mentions_business_email_def
  extract_business_email_def re_search_def re_match_def lit_def in_cls_def in_cls0_def
  substr_def

subsection \<open>The classes of the patterns\<close>

lemma local_chr_ascii: "local_chr c \<Longrightarrow> code c < 128"
  by (auto simp: local_chr_def is_alpha_code is_digit_code)

lemma domain_chr_ascii: "domain_chr c \<Longrightarrow> code c < 128"
  by (auto simp: domain_chr_def is_alpha_code is_digit_code)

lemma in_cls0_local: "in_cls0 local_cls c \<longleftrightarrow> local_chr c"
  by (auto simp: in_cls0_def local_cls_def local_chr_def is_alpha_def is_digit_def)

lemma in_cls0_domain: "in_cls0 domain_cls c \<longleftrightarrow> domain_chr c"
  by (auto simp: in_cls0_def domain_cls_def domain_chr_def is_alpha_def is_digit_def)

lemma in_cls0_alpha: "in_cls0 alpha_cls c \<longleftrightarrow> is_alpha c"
  by (auto simp: in_cls0_def alpha_cls_def is_alpha_def)

lemma in_cls_local: "in_cls ci local_cls c \<longleftrightarrow> local_chr c"
  using in_cls_closed [of local_cls ci c] local_chr_ascii
  by (simp add: in_cls0_local local_chr_def)

lemma in_cls_domain: "in_cls ci domain_cls c \<longleftrightarrow> domain_chr c"
  using in_cls_closed [of domain_cls ci c] domain_chr_ascii
  by (simp add: in_cls0_domain domain_chr_def)

lemma in_cls_alpha: "in_cls ci alpha_cls c \<longleftrightarrow> is_alpha c"
  using in_cls_closed [of alpha_cls ci c] alpha_ascii by (simp add: in_cls0_alpha)

subsection \<open>The address sub-pattern\<close>

lemma in_cls_local_eq: "in_cls ci local_cls = local_chr"
  and in_cls_domain_eq: "in_cls ci domain_cls = domain_chr"
  and in_cls_alpha_eq: "in_cls ci alpha_cls = is_alpha"
  and in_cls_at_eq: "in_cls ci [Chr CHR ''@''] = (\<lambda>c. c = CHR ''@'')"
  and in_cls_dot_eq: "in_cls ci [Chr CHR ''.''] = (\<lambda>c. c = CHR ''.'')"
  by (auto simp: in_cls_local in_cls_domain in_cls_alpha in_cls_punct)

lemma one_char_list:
  "Suc 0 \<le> length u \<Longrightarrow> length u \<le> Suc 0 \<Longrightarrow> list_all (\<lambda>c. c = x) u \<Longrightarrow> u = [x]"
  by (cases u) auto

lemma results_addr:
  "r \<in> results ci addr_nodes xs i \<longleftrightarrow>
   (\<exists>w v. xs = w @ v \<and> email_shaped w \<and> r = (i + length w, []))"
  (is "?L \<longleftrightarrow> ?R")
proof
  assume ?L
  then obtain l v1 a v2 d v3 p v4 t v5 where
      parts: "xs = l @ v1" "v1 = a @ v2" "v2 = d @ v3" "v3 = p @ v4" "v4 = t @ v5"
      and l: "Suc 0 \<le> length l" "list_all local_chr l"
      and a: "Suc 0 \<le> length a" "length a \<le> Suc 0" "list_all (\<lambda>c. c = CHR ''@'') a"
      and d: "Suc 0 \<le> length d" "list_all domain_chr d"
      and p: "Suc 0 \<le> length p" "length p \<le> Suc 0" "list_all (\<lambda>c. c = CHR ''.'') p"
      and t: "2 \<le> length t" "list_all is_alpha t"
      and r: "r = (i + length l + length a + length d + length p + length t, [])"
    unfolding addr_nodes_def results_Rep_iff
    by (auto simp: in_cls_local_eq in_cls_domain_eq in_cls_alpha_eq in_cls_at_eq in_cls_dot_eq)
  from a p have ap: "a = ''@''" "p = ''.''" by (auto intro: one_char_list)
  have "email_shaped (l @ ''@'' @ d @ ''.'' @ t)"
    unfolding email_shaped_def using l d t
    by (intro exI [of _ l] exI [of _ d] exI [of _ t]) auto
  with parts ap r show ?R
    by (intro exI [of _ "l @ ''@'' @ d @ ''.'' @ t"] exI [of _ v5]) simp
next
  assume ?R
  then obtain l d t v where xs: "xs = l @ ''@'' @ d @ ''.'' @ t @ v"
      and l: "l \<noteq> []" "list_all local_chr l" and d: "d \<noteq> []" "list_all domain_chr d"
      and t: "2 \<le> length t" "list_all is_alpha t"
      and r: "r = (i + length (l @ ''@'' @ d @ ''.'' @ t), [])"
    unfolding email_shaped_def by auto
  have "r \<in> results ci addr_nodes (l @ ''@'' @ d @ ''.'' @ t @ v) i"
    unfolding addr_nodes_def
    by (intro results_RepI)
      (use l d t r in \<open>simp_all add: in_cls_local_eq in_cls_domain_eq in_cls_alpha_eq
        in_cls_at_eq in_cls_dot_eq Suc_le_eq\<close>)
  with xs show ?L by simp
qed

subsection \<open>The three patterns\<close>

lemma email_re_matches_split:
  "email_re_matches s \<longleftrightarrow> (\<exists>w v. s = w @ v \<and> email_shaped w \<and> (v = [] \<or> v = [LF]))"
proof -
  have "email_re_matches s \<longleftrightarrow> results False (addr_nodes @ [Eol]) s 0 \<noteq> {}"
    by (simp add: email_re_matches_def re_match_def EMAIL_RE_def bt_None_iff)
  also have "\<dots> \<longleftrightarrow> (\<exists>w v. s = w @ v \<and> email_shaped w \<and> (v = [] \<or> v = [LF]))"
  proof
    assume "results False (addr_nodes @ [Eol]) s 0 \<noteq> {}"
    then obtain r where "r \<in> results False (addr_nodes @ [Eol]) s 0" by blast
    then obtain j cs1 k cs2 where j: "(j, cs1) \<in> results False addr_nodes s 0"
        and k: "(k, cs2) \<in> results False [Eol] (drop j s) j"
      unfolding results_append diff_zero by blast
    from j obtain w v where "s = w @ v" "email_shaped w" "j = length w"
      unfolding results_addr by auto
    with k show "\<exists>w v. s = w @ v \<and> email_shaped w \<and> (v = [] \<or> v = [LF])"
      by (auto split: if_splits)
  next
    assume "\<exists>w v. s = w @ v \<and> email_shaped w \<and> (v = [] \<or> v = [LF])"
    then obtain w v where wv: "s = w @ v" "email_shaped w" "v = [] \<or> v = [LF]" by blast
    then have "(length w, []) \<in> results False addr_nodes s 0"
      unfolding results_addr by auto
    moreover from wv have "(length w, []) \<in> results False [Eol] (drop (length w) s) (length w)"
      by auto
    ultimately have "(length w, []) \<in> results False (addr_nodes @ [Eol]) s 0"
      unfolding results_append by fastforce
    then show "results False (addr_nodes @ [Eol]) s 0 \<noteq> {}" by blast
  qed
  finally show ?thesis .
qed

lemma email_shaped_re_matches: "email_shaped w \<Longrightarrow> email_re_matches w"
  unfolding email_re_matches_split by (metis append_Nil2)

text \<open>C2: \<open>EMAIL_RE.match\<close> (line 50 with the \<open>$\<close> of Python's \<open>re\<close>) accepts a string
  exactly when it is an email-shaped address, or an email-shaped address followed by one
  final newline.\<close>

lemma email_re_matches_iff:
  "email_re_matches s \<longleftrightarrow> email_shaped s \<or> (\<exists>w. s = w @ [LF] \<and> email_shaped w)"
  unfolding email_re_matches_split by (metis append_Nil2)

lemma results_group:
  "(j, cs) \<in> results ci (Open # addr_nodes @ [Close]) xs i \<longleftrightarrow>
   (\<exists>w v. xs = w @ v \<and> email_shaped w \<and> j = i + length w \<and> cs = [i, i + length w])"
  by (auto simp: results_append results_addr)

lemma results_captured_addr:
  assumes "list_all (\<lambda>n. n \<noteq> Open \<and> n \<noteq> Close) pre"
    and "(j, cs) \<in> results ci (pre @ Open # addr_nodes @ [Close]) xs i"
  shows "\<exists>a w. cs = [a, a + length w] \<and> email_shaped w \<and> i \<le> a \<and>
           take (length w) (drop (a - i) xs) = w"
proof -
  from assms(2) obtain a cs1 cs2 where pre: "(a, cs1) \<in> results ci pre xs i"
      and grp: "(j, cs2) \<in> results ci (Open # addr_nodes @ [Close]) (drop (a - i) xs) a"
      and cs: "cs = cs1 @ cs2"
    unfolding results_append by blast
  from pre assms(1) have "cs1 = []" by (rule no_caps_results [rotated])
  moreover from pre have "i \<le> a" by (auto dest: results_le)
  moreover from grp obtain w v where "drop (a - i) xs = w @ v" "email_shaped w"
      "cs2 = [a, a + length w]"
    unfolding results_group by blast
  ultimately show ?thesis using cs by auto
qed

lemma search_group_addr:
  assumes "prog r = pre @ Open # addr_nodes @ [Close]"
    and "list_all (\<lambda>n. n \<noteq> Open \<and> n \<noteq> Close) pre"
    and "search_group r s = Some g"
  shows "email_shaped g \<and> sublist g s"
proof -
  from assms(3) obtain st j cs where srch: "re_search r s = Some (st, j, cs)"
      and g: "group1 s (st, j, cs) = Some g"
    by (auto simp: search_group_def split: option.splits)
  from srch have "bt (ignorecase r) (prog r) (drop st s) st = Some (j, cs)"
    using search_from_SomeE [of "ignorecase r" "prog r" s 0 st j cs]
    by (simp add: re_search_def)
  then have "(j, cs) \<in> results (ignorecase r) (pre @ Open # addr_nodes @ [Close]) (drop st s) st"
    using assms(1) by (auto dest: bt_sound)
  from results_captured_addr [OF assms(2) this] obtain a w where
      cs: "cs = [a, a + length w]" and w: "email_shaped w" and le: "st \<le> a"
      and tk: "take (length w) (drop (a - st) (drop st s)) = w"
    by blast
  from tk le have "take (length w) (drop a s) = w" by simp
  with g cs have "g = w" by (simp add: substr_def)
  moreover have "sublist (take (length w) (drop a s)) s"
    by (meson sublist_drop sublist_order.dual_order.trans sublist_take)
  ultimately show ?thesis using w \<open>take (length w) (drop a s) = w\<close> by simp
qed

lemma search_group_business:
  "search_group BUSINESS_EMAIL_LINE_RE s = Some g \<Longrightarrow> email_shaped g \<and> sublist g s"
  by (rule search_group_addr [where pre = "lit ''business'' @ [Rep [Space] 0 None] @ lit ''email'' @
      [Rep [Chr CHR '':'', Chr CHR ''-'', Space] 0 None]"])
    (simp_all add: BUSINESS_EMAIL_LINE_RE_def lit_def)

lemma search_group_line:
  "search_group ADDR_SEARCH_RE s = Some g \<Longrightarrow> email_shaped g \<and> sublist g s"
  by (rule search_group_addr [where pre = "[]"]) (simp_all add: ADDR_SEARCH_RE_def)

lemma local_chr_not_space: "local_chr c \<Longrightarrow> \<not> py_isspace c"
  by (auto simp: local_chr_def is_alpha_code is_digit_code py_isspace_def Let_def)

lemma email_shaped_strip: "email_shaped w \<Longrightarrow> py_strip w = w"
proof -
  assume "email_shaped w"
  then obtain l d t where w: "w = l @ ''@'' @ d @ ''.'' @ t" and l: "l \<noteq> []" "list_all local_chr l"
      and t: "2 \<le> length t" "list_all is_alpha t"
    unfolding email_shaped_def by blast
  from l have hd: "\<not> py_isspace (hd w)"
    using w local_chr_not_space by (cases l) auto
  from t have "\<not> py_isspace (last t)"
    using local_chr_not_space [of "last t"] by (cases t rule: rev_cases) (auto simp: local_chr_def)
  then have lst: "\<not> py_isspace (hd (rev w))"
    using t w by (cases t rule: rev_cases) auto
  have "w \<noteq> []" using w by simp
  with hd lst show ?thesis
    by (simp add: py_strip_def dropWhile_hd_not)
qed

subsection \<open>The labelled pattern at a label\<close>

text \<open>Where \<open>BUSINESS_EMAIL_LINE_RE\<close> matches in a body that has one label followed
  by an address: no match starts before the label, and the match at the label captures
  the whole address.\<close>

lemma email_shaped_hd: "email_shaped x \<Longrightarrow> x \<noteq> [] \<and> local_chr (hd x)"
  unfolding email_shaped_def by (auto simp: neq_Nil_conv)

lemma bt_addr:
  assumes x: "email_shaped x" and post: "post = [] \<or> \<not> domain_chr (hd post)"
    and rest: "bt ci ns post (i + length x) = Some r"
  shows "bt ci (addr_nodes @ ns) (x @ post) i = Some r"
proof -
  from x obtain l d t where xs: "x = l @ ''@'' @ d @ ''.'' @ t" and l: "l \<noteq> []" "list_all local_chr l"
      and d: "d \<noteq> []" "list_all domain_chr d" and t: "2 \<le> length t" "list_all is_alpha t"
    unfolding email_shaped_def by blast
  have alpha_dom: "is_alpha c \<Longrightarrow> domain_chr c" for c by (simp add: domain_chr_def)
  have post_alpha: "post = [] \<or> \<not> is_alpha (hd post)" using post alpha_dom by blast
  have post_dot: "post = [] \<or> hd post \<noteq> CHR ''.''" using post by (auto simp: domain_chr_def)
  let ?i4 = "i + length l + 1 + length d + 1"
  have rest': "bt ci ns post (?i4 + length t) = Some r"
    using rest xs by (simp add: add.assoc)
  have s5: "bt ci (Rep alpha_cls 2 None # ns) (t @ post) ?i4 = Some r"
    by (rule bt_Rep_run) (use t post_alpha rest' in \<open>simp_all add: in_cls_alpha_eq\<close>)
  have s4: "bt ci (Rep [Chr CHR ''.''] 1 (Some 1) # Rep alpha_cls 2 None # ns)
      (CHR ''.'' # t @ post) (?i4 - 1) = Some r"
    using s5 by (simp add: bt_single in_cls_dot_eq)
  let ?zs = "d @ CHR ''.'' # t @ post"
  let ?f = "\<lambda>k. bt ci (Rep [Chr CHR ''.''] 1 (Some 1) # Rep alpha_cls 2 None # ns) (drop k ?zs)
      (i + length l + 1 + k)"
  have all_dom: "list_all domain_chr (d @ CHR ''.'' # t)"
    using d t alpha_dom by (auto simp: list_all_iff domain_chr_def)
  have "takeWhile domain_chr ((d @ CHR ''.'' # t) @ post) = d @ CHR ''.'' # t"
    by (rule takeWhile_append_stop [OF all_dom post])
  then have tw: "takeWhile (in_cls ci domain_cls) ?zs = d @ CHR ''.'' # t"
    by (simp add: in_cls_domain_eq)
  have at_d: "?f (length d) = Some r"
    using s4 by simp
  have fail: "?f j = None" if j: "length d < j" "j \<le> length d + 1 + length t" for j
  proof -
    let ?k = "j - Suc (length d)"
    have dr: "drop j ?zs = drop ?k t @ post"
      using j by (simp add: drop_append Suc_diff_Suc [symmetric])
    have "drop j ?zs = [] \<or> hd (drop j ?zs) \<noteq> CHR ''.''"
    proof (cases "?k < length t")
      case True
      then have "hd (drop j ?zs) = t ! ?k" using dr by (simp add: hd_drop_conv_nth)
      moreover have "is_alpha (t ! ?k)" using t True by (simp add: list_all_length)
      ultimately show ?thesis by (auto simp: is_alpha_code)
    next
      case False
      then have "drop j ?zs = post" using dr by simp
      with post_dot show ?thesis by simp
    qed
    then show ?thesis
      by (intro bt_single_fail) (simp add: in_cls_dot_eq)
  qed
  let ?R3 = "Rep [Chr CHR ''.''] 1 (Some 1) # Rep alpha_cls 2 None # ns"
  have s3: "bt ci (Rep domain_cls 1 None # ?R3) ?zs (i + length l + 1) = Some r"
  proof -
    have "bt ci (Rep domain_cls 1 None # ?R3) ?zs (i + length l + 1) =
        greedy ?f 1 (length (takeWhile (in_cls ci domain_cls) ?zs))"
      by (simp only: bt.simps(2) [of ci domain_cls] rep_max.simps(1))
    also have "\<dots> = Some r"
    proof (rule greedy_first_success [of _ "length d"])
      show "1 \<le> length d" using d(1) by (cases d) auto
      show "length d \<le> length (takeWhile (in_cls ci domain_cls) ?zs)" using tw by simp
      show "?f (length d) = Some r" by (rule at_d)
      show "\<forall>j. length d < j \<and> j \<le> length (takeWhile (in_cls ci domain_cls) ?zs) \<longrightarrow> ?f j = None"
        using tw fail by simp
    qed
    finally show ?thesis .
  qed
  have s2: "bt ci (Rep [Chr CHR ''@''] 1 (Some 1) # Rep domain_cls 1 None # Rep [Chr CHR ''.''] 1 (Some 1) #
      Rep alpha_cls 2 None # ns) (CHR ''@'' # ?zs) (i + length l) = Some r"
  proof -
    have "in_cls ci [Chr CHR ''@''] CHR ''@''" by (simp add: in_cls_at_eq)
    then have "bt ci (Rep [Chr CHR ''@''] 1 (Some 1) # Rep domain_cls 1 None # ?R3) (CHR ''@'' # ?zs)
        (i + length l) = bt ci (Rep domain_cls 1 None # ?R3) ?zs (Suc (i + length l))"
      by (rule bt_single)
    with s3 show ?thesis by simp
  qed
  have at_not_local: "\<not> local_chr CHR ''@''" by (simp add: local_chr_def is_alpha_def is_digit_def in_range_def)
  show ?thesis
    unfolding addr_nodes_def xs append.simps append_assoc
    by (rule bt_Rep_run) (use l s2 at_not_local in \<open>simp_all add: in_cls_local_eq Suc_le_eq
      del: bt.simps\<close>)
qed

lemma sep_rejects_local:
  assumes "local_chr c" "c \<noteq> CHR ''-''"
  shows "\<not> in_cls ci [Chr CHR '':'', Chr CHR ''-'', Space] c"
proof -
  have sep0: "in_cls0 [Chr CHR '':'', Chr CHR ''-'', Space] x \<longleftrightarrow>
      x = CHR '':'' \<or> x = CHR ''-'' \<or> py_isspace x" for x
    by (auto simp: in_cls0_def)
  have alpha_no: "is_alpha x \<Longrightarrow> \<not> in_cls0 [Chr CHR '':'', Chr CHR ''-'', Space] x" for x
    using alpha_not_space [of x] by (auto simp: sep0 is_alpha_code)
  show ?thesis
  proof (cases "is_alpha c")
    case True
    then show ?thesis using alpha_no [of c] alpha_no [of "py_lower_chr c"] alpha_no [of "py_upper_chr c"]
      by (simp add: in_cls_def)
  next
    case False
    with assms have "py_lower_chr c = c \<and> py_upper_chr c = c"
      by (intro ascii_fixed local_chr_ascii)
    moreover have "c \<noteq> CHR '':''" using assms(1) by (auto simp: local_chr_def is_alpha_def is_digit_def in_range_def)
    moreover have "\<not> py_isspace c" using assms(1) by (rule local_chr_not_space)
    ultimately show ?thesis using assms(2) by (simp add: in_cls_def sep0)
  qed
qed

lemma business_lower: "\<forall>d \<in> set ''business''. 97 \<le> code d \<and> code d \<le> 122"
  and email_lower: "\<forall>d \<in> set ''email''. 97 \<le> code d \<and> code d \<le> 122"
  by simp_all

lemma business_prog:
  "prog BUSINESS_EMAIL_LINE_RE = lit ''business'' @ Rep [Space] 0 None # lit ''email'' @
     Rep [Chr CHR '':'', Chr CHR ''-'', Space] 0 None # Open # addr_nodes @ [Close]"
  by (simp add: BUSINESS_EMAIL_LINE_RE_def)

lemma business_match_prefix:
  assumes "bt True (prog BUSINESS_EMAIL_LINE_RE) xs i \<noteq> None"
  shows "\<exists>u v. xs = u @ v \<and> py_lower u = ''business''"
proof -
  from assms obtain r where "r \<in> results True (prog BUSINESS_EMAIL_LINE_RE) xs i"
    by (auto simp: bt_None_iff)
  then obtain u v where "xs = u @ v" "list_all2 (\<lambda>x d. in_cls True [Chr d] x) u ''business''"
    unfolding business_prog by (blast dest: results_lit)
  then show ?thesis using in_cls_lower_list [OF business_lower] by blast
qed

lemma business_chars_alpha: "k < length ''business'' \<Longrightarrow> is_alpha (''business'' ! k)"
proof -
  assume "k < length ''business''"
  then have "''business'' ! k \<in> set ''business''" by (rule nth_mem)
  then show ?thesis by (auto simp: is_alpha_def in_range_def)
qed

lemma no_match_in_prefix:
  assumes none: "\<not> py_in ''business'' (py_lower pre)"
    and last_pre: "pre = [] \<or> \<not> is_alpha (last pre)"
    and p: "p < length pre"
  shows "bt True (prog BUSINESS_EMAIL_LINE_RE) (drop p (pre @ ys)) (i + p) = None"
proof (rule ccontr)
  assume "bt True (prog BUSINESS_EMAIL_LINE_RE) (drop p (pre @ ys)) (i + p) \<noteq> None"
  then have "\<exists>u v. drop p (pre @ ys) = u @ v \<and> py_lower u = ''business''"
    by (rule business_match_prefix)
  then obtain u v where uv: "drop p (pre @ ys) = u @ v" and lu: "py_lower u = ''business''"
    by blast
  from lu have "length (py_lower u) = 8" by simp
  then have len: "length u = 8" by simp
  show False
  proof (cases "p + 8 \<le> length pre")
    case True
    from uv have "take (length u) (drop p (pre @ ys)) = u" by simp
    then have "u = take 8 (drop p (pre @ ys))" using len by simp
    with True have "u = take 8 (drop p pre)" by simp
    then have "sublist u pre" by (simp add: sublist_order.order_trans [OF sublist_take sublist_drop])
    then have "sublist (py_lower u) (py_lower pre)"
      unfolding py_lower_def by (rule map_mono_sublist)
    with lu none show False by (simp add: py_in_iff_sublist)
  next
    case False
    let ?k = "length pre - Suc p"
    have k: "?k < length u" "p + ?k = length pre - 1" using False p len by auto
    have "u ! ?k = (drop p (pre @ ys)) ! ?k" using uv k(1) by (simp add: nth_append)
    also have "\<dots> = (pre @ ys) ! (p + ?k)" by (rule nth_drop) (use p in simp)
    also have "\<dots> = pre ! (p + ?k)"
    proof -
      have "p + ?k < length pre" using p by auto
      then show ?thesis by (rule nth_append_left)
    qed
    also have "\<dots> = pre ! (length pre - 1)" using k(2) by simp
    also have "\<dots> = last pre"
    proof -
      have "pre \<noteq> []" using p by auto
      then show ?thesis by (simp add: last_conv_nth)
    qed
    finally have uk: "u ! ?k = last pre" .
    have "py_lower u ! ?k = py_lower_chr (u ! ?k)" using k(1) by (simp add: py_lower_def)
    then have "py_lower_chr (u ! ?k) = ''business'' ! ?k" using lu by simp
    moreover have "is_alpha (''business'' ! ?k)" using k(1) len by (intro business_chars_alpha) simp
    ultimately have "is_alpha (py_lower_chr (last pre))" using uk by simp
    then have "is_alpha (last pre)" by simp
    with last_pre p show False by auto
  qed
qed

lemma bt_business_at:
  assumes lb1: "py_lower lb1 = ''business''" and ws: "list_all py_isspace ws"
    and lb2: "py_lower lb2 = ''email''"
    and sep: "list_all (\<lambda>c. c = CHR '':'' \<or> c = CHR ''-'' \<or> py_isspace c) sep"
    and x: "email_shaped x" "hd x \<noteq> CHR ''-''"
    and post: "post = [] \<or> \<not> domain_chr (hd post)"
  shows "bt True (prog BUSINESS_EMAIL_LINE_RE) (lb1 @ ws @ lb2 @ sep @ x @ post) i =
     Some (i + length lb1 + length ws + length lb2 + length sep + length x,
           [i + length lb1 + length ws + length lb2 + length sep,
            i + length lb1 + length ws + length lb2 + length sep + length x])"
proof -
  let ?sep = "[Chr CHR '':'', Chr CHR ''-'', Space]"
  let ?a = "i + length lb1 + length ws + length lb2 + length sep"
  have len1: "length lb1 = 8" using arg_cong [OF lb1, of length] by simp
  have len2: "length lb2 = 5" using arg_cong [OF lb2, of length] by simp
  have s_addr: "bt True (addr_nodes @ [Close]) (x @ post) ?a = Some (?a + length x, [?a + length x])"
    by (rule bt_addr) (use x post in simp_all)
  have s_open: "bt True (Open # addr_nodes @ [Close]) (x @ post) ?a =
      Some (?a + length x, [?a, ?a + length x])"
    using s_addr by simp
  have hdx: "x @ post = [] \<or> \<not> in_cls True ?sep (hd (x @ post))"
    using email_shaped_hd [OF x(1)] x(2) sep_rejects_local by auto
  have sep_in: "list_all (in_cls True ?sep) sep"
    using sep by (auto simp: list_all_iff in_cls_def in_cls0_def)
  have s_sep: "bt True (Rep ?sep 0 None # Open # addr_nodes @ [Close]) (sep @ x @ post)
      (i + length lb1 + length ws + length lb2) = Some (?a + length x, [?a, ?a + length x])"
    by (rule bt_Rep_run) (use sep_in hdx s_open in \<open>simp_all add: add.assoc del: bt.simps\<close>)
  have s_lb2: "bt True (lit ''email'' @ Rep ?sep 0 None # Open # addr_nodes @ [Close])
      (lb2 @ sep @ x @ post) (i + length lb1 + length ws) = Some (?a + length x, [?a, ?a + length x])"
  proof -
    have "list_all2 (\<lambda>x d. in_cls True [Chr d] x) lb2 ''email''"
      using in_cls_lower_list [OF email_lower] lb2 by blast
    then show ?thesis using s_sep by (simp add: bt_lit_len add.assoc del: bt.simps)
  qed
  have hd2: "lb2 @ sep @ x @ post = [] \<or> \<not> in_cls True [Space] (hd (lb2 @ sep @ x @ post))"
  proof -
    obtain c l where c: "lb2 = c # l" using len2 by (cases lb2) auto
    then have "py_lower_chr c = CHR ''e''" using lb2 by simp
    then have "is_alpha (py_lower_chr c)" by (simp add: is_alpha_def in_range_def)
    then show ?thesis using c by (simp add: alpha_not_in_space)
  qed
  have ws_in: "list_all (in_cls True [Space]) ws"
    using ws by (auto simp: list_all_iff in_cls_def in_cls0_def)
  have s_ws: "bt True (Rep [Space] 0 None # lit ''email'' @ Rep ?sep 0 None # Open # addr_nodes @ [Close])
      (ws @ lb2 @ sep @ x @ post) (i + length lb1) = Some (?a + length x, [?a, ?a + length x])"
    by (rule bt_Rep_run [OF ws_in hd2]) (use s_lb2 in \<open>simp_all add: add.assoc del: bt.simps\<close>)
  have "list_all2 (\<lambda>x d. in_cls True [Chr d] x) lb1 ''business''"
    using in_cls_lower_list [OF business_lower] lb1 by blast
  then show ?thesis
    using s_ws by (simp add: business_prog bt_lit_len add.assoc del: bt.simps)
qed

subsection \<open>The extractor\<close>

lemma splitlines_acc_sublist: "l \<in> set (splitlines_acc cur s) \<Longrightarrow> sublist l (cur @ s)"
proof (induction cur s rule: splitlines_acc.induct)
  case (1 cur)
  then show ?case by (simp split: if_splits)
next
  case (2 cur c cs)
  have tl_sub: "sublist l (tl cs) \<Longrightarrow> sublist l (cur @ c # cs)"
    using sublist_append_left_trans [of l "tl cs" "cur @ [c, hd cs]"] by (cases cs) auto
  have cs_sub: "sublist l cs \<Longrightarrow> sublist l (cur @ c # cs)"
    using sublist_append_left_trans [of l cs "cur @ [c]"] by simp
  show ?case
    using "2.prems" "2.IH" tl_sub cs_sub by (auto split: if_splits)
qed

lemma py_splitlines_sublist: "l \<in> set (py_splitlines s) \<Longrightarrow> sublist l s"
  using splitlines_acc_sublist [of l "[]" s] by (simp add: py_splitlines_def)

lemma line_candidate_Some: "line_candidate l = Some c \<Longrightarrow> email_shaped c \<and> sublist c l"
  by (auto simp: line_candidate_def split: option.splits if_splits dest: search_group_line)

lemma scan_lines_Some: "scan_lines ls = Some c \<Longrightarrow> \<exists>l \<in> set ls. line_candidate l = Some c"
proof (induction ls rule: scan_lines.induct)
  case 1
  then show ?case by simp
next
  case (2 line rest)
  then show ?case by (auto split: if_splits option.splits list.splits)
qed

lemma direct_candidate_Some: "direct_candidate body = Some c \<Longrightarrow> email_shaped c \<and> sublist c body"
  by (auto simp: direct_candidate_def Let_def email_shaped_strip split: option.splits if_splits
      dest: search_group_business)

text \<open>C1: whatever \<open>extract_business_email\<close> returns is an email-shaped address that
  occurs in the body, whichever phase found it.\<close>

theorem extract_business_email_sound:
  "extract_business_email body = Some e \<Longrightarrow> email_shaped e \<and> py_in e body"
proof -
  assume ext: "extract_business_email body = Some e"
  show ?thesis
  proof (cases "direct_candidate body")
    case (Some c)
    with ext show ?thesis
      by (auto simp: extract_business_email_def py_in_iff_sublist split: if_splits
          dest: direct_candidate_Some)
  next
    case None
    with ext have "scan_lines (py_splitlines body) = Some e"
      by (simp add: extract_business_email_def split: if_splits)
    then obtain l where "l \<in> set (py_splitlines body)" "line_candidate l = Some e"
      by (auto dest: scan_lines_Some)
    then show ?thesis
      by (auto simp: py_in_iff_sublist dest!: line_candidate_Some py_splitlines_sublist
          intro: sublist_order.order_trans)
  qed
qed

text \<open>C3: the labelled form of spec section 4.1. A body made of text without the word
  \<open>business\<close> (in any case) and not ending in a letter, the label \<open>business\<close> in any
  case, whitespace, \<open>email\<close> in any case, a run of \<open>:\<close>, \<open>-\<close> and whitespace, an
  address not starting with \<open>-\<close>, and text not continuing the domain, yields exactly
  that address.\<close>

theorem extract_labelled_address:
  assumes none: "\<not> py_in ''business'' (py_lower pre)"
    and last_pre: "pre = [] \<or> \<not> is_alpha (last pre)"
    and lb1: "py_lower lb1 = ''business''" and ws: "list_all py_isspace ws"
    and lb2: "py_lower lb2 = ''email''"
    and sep: "list_all (\<lambda>c. c = CHR '':'' \<or> c = CHR ''-'' \<or> py_isspace c) sep"
    and x: "email_shaped x" "hd x \<noteq> CHR ''-''"
    and post: "post = [] \<or> \<not> domain_chr (hd post)"
  shows "extract_business_email (pre @ lb1 @ ws @ lb2 @ sep @ x @ post) = Some x"
proof -
  let ?P = "prog BUSINESS_EMAIL_LINE_RE"
  let ?ys = "lb1 @ ws @ lb2 @ sep @ x @ post"
  let ?a = "length pre + length lb1 + length ws + length lb2 + length sep"
  have at: "bt True ?P ?ys (length pre) = Some (?a + length x, [?a, ?a + length x])"
    by (rule bt_business_at [OF lb1 ws lb2 sep x post])
  have "\<forall>p < length pre. bt True ?P (drop p (pre @ ?ys)) (0 + p) = None"
    using no_match_in_prefix [OF none last_pre] by blast
  then have skip: "search_from True ?P (pre @ ?ys) 0 = search_from True ?P ?ys (length pre)"
    using search_from_skip by fastforce
  obtain y ys' where ys: "?ys = y # ys'"
    using lb1 by (cases lb1) auto
  have "re_search BUSINESS_EMAIL_LINE_RE (pre @ ?ys) = Some (length pre, ?a + length x, [?a, ?a + length x])"
    using skip at unfolding re_search_def ys by (simp add: BUSINESS_EMAIL_LINE_RE_def)
  then have "search_group BUSINESS_EMAIL_LINE_RE (pre @ ?ys) = Some x"
    by (simp add: search_group_def substr_def)
  then show ?thesis
    using email_shaped_strip [OF x(1)] email_shaped_re_matches [OF x(1)] ys
    by (simp add: extract_business_email_def direct_candidate_def)
qed

subsection \<open>Witnesses\<close>

theorem extract_business_email_sound_witness:
  "extract_business_email ''Business email: a@b.co'' = Some ''a@b.co'' \<and>
   email_shaped ''a@b.co'' \<and> py_in ''a@b.co'' ''Business email: a@b.co''"
proof -
  have h: "extract_business_email ''Business email: a@b.co'' = Some ''a@b.co''"
    by code_simp
  show ?thesis using h extract_business_email_sound [OF h] by simp
qed

theorem email_re_matches_iff_witness:
  "email_re_matches ''a@b.co\<newline>'' \<and>
   (email_shaped ''a@b.co\<newline>'' \<or> (\<exists>w. ''a@b.co\<newline>'' = w @ [LF] \<and> email_shaped w))"
proof -
  have h: "email_re_matches ''a@b.co\<newline>''" by code_simp
  show ?thesis using h email_re_matches_iff [of "''a@b.co\<newline>''"] by simp
qed

theorem extract_labelled_address_witness:
  "extract_business_email
     (''Hello,\<newline>'' @ ''BUSINESS'' @ '' '' @ ''Email'' @ '' - '' @ ''contact@example.com'' @ ''\<newline>Thanks'')
   = Some ''contact@example.com''"
proof (rule extract_labelled_address)
  show "email_shaped ''contact@example.com''"
    unfolding email_shaped_def
    by (intro exI [of _ "''contact''"] exI [of _ "''example''"] exI [of _ "''com''"])
      (simp add: local_chr_def domain_chr_def is_alpha_def is_digit_def in_range_def)
qed code_simp+

end
