(* ===== verification/Classifier.thy ===== *)
theory Classifier
  imports Prelude
begin

text \<open>
  The message classifier \<open>is_auto_generated\<close> (src/improved_auto_reply.py, lines
  56-71) over the header fields of a parsed message. A message's headers are the list
  of its (name, value) fields in order; \<open>msg.get(name)\<close> is the value of the first
  field whose name equals \<open>name\<close> ignoring case, as \<open>email.message.Message.get\<close>
  computes it. \<open>email.utils.parseaddr\<close> is a library function the classifier only
  calls; it is a parameter \<open>parseaddr\<close> of the model. The theory compares the
  classifier with the four rules of spec section 4.1.
\<close>

type_synonym headers = "(string \<times> string) list"

text \<open>\<open>Message.get(name)\<close>: the first field whose lower-cased name matches.\<close>

fun msg_get :: "headers \<Rightarrow> string \<Rightarrow> string option" where
  "msg_get [] name = None"
| "msg_get ((k, v) # hs) name = (if py_lower k = py_lower name then Some v else msg_get hs name)"

text \<open>\<open>msg.get(name, "")\<close>.\<close>

definition msg_get_default :: "headers \<Rightarrow> string \<Rightarrow> string" where
  "msg_get_default hs name = or_empty (msg_get hs name)"

text \<open>Lines 56-71, rule by rule with the code's early returns.\<close>

definition is_auto_generated :: "(string \<Rightarrow> string \<times> string) \<Rightarrow> headers \<Rightarrow> bool" where
  "is_auto_generated parseaddr msg =
     (let auto_submitted = py_lower (or_empty (msg_get msg ''Auto-Submitted'')) in
      if auto_submitted \<noteq> [] \<and> auto_submitted \<noteq> ''no'' then True
      else
        let precedence = py_lower (or_empty (msg_get msg ''Precedence'')) in
        if precedence \<in> set [''bulk'', ''list'', ''auto_reply''] then True
        else if truthy (msg_get msg ''List-Id'') \<or> truthy (msg_get msg ''List-Unsubscribe'') then True
        else
          let from_addr = snd (parseaddr (msg_get_default msg ''From'')) in
          if from_addr \<noteq> [] \<and> (py_in ''mailer-daemon'' (py_lower from_addr) \<or>
                                 py_in ''postmaster'' (py_lower from_addr))
          then True else False)"

text \<open>The four rules of spec section 4.1 as they are written there: a header that is
  present counts, whatever its value.\<close>

definition is_automated_spec :: "(string \<Rightarrow> string \<times> string) \<Rightarrow> headers \<Rightarrow> bool" where
  "is_automated_spec parseaddr msg \<longleftrightarrow>
     (case msg_get msg ''Auto-Submitted'' of None \<Rightarrow> False | Some v \<Rightarrow> py_lower v \<noteq> ''no'') \<or>
     py_lower (or_empty (msg_get msg ''Precedence'')) \<in> set [''bulk'', ''list'', ''auto_reply''] \<or>
     msg_get msg ''List-Id'' \<noteq> None \<or> msg_get msg ''List-Unsubscribe'' \<noteq> None \<or>
     (let a = py_lower (snd (parseaddr (msg_get_default msg ''From''))) in
      py_in ''mailer-daemon'' a \<or> py_in ''postmaster'' a)"

lemma truthy_iff: "truthy v \<longleftrightarrow> (\<exists>s. v = Some s \<and> s \<noteq> [])"
  by (cases v) auto

lemma is_auto_generated_iff:
  "is_auto_generated pa msg \<longleftrightarrow>
     (let a = py_lower (or_empty (msg_get msg ''Auto-Submitted'')) in a \<noteq> [] \<and> a \<noteq> ''no'') \<or>
     py_lower (or_empty (msg_get msg ''Precedence'')) \<in> set [''bulk'', ''list'', ''auto_reply''] \<or>
     truthy (msg_get msg ''List-Id'') \<or> truthy (msg_get msg ''List-Unsubscribe'') \<or>
     (let a = py_lower (snd (pa (msg_get_default msg ''From''))) in
      py_in ''mailer-daemon'' a \<or> py_in ''postmaster'' a)"
  by (auto simp: is_auto_generated_def Let_def)

text \<open>C4: where the first \<open>Auto-Submitted\<close>, \<open>List-Id\<close> and \<open>List-Unsubscribe\<close> fields
  are absent or non-empty, the classifier decides exactly the four rules of spec
  section 4.1.\<close>

theorem is_auto_generated_eq_spec:
  assumes "\<forall>n \<in> set [''Auto-Submitted'', ''List-Id'', ''List-Unsubscribe'']. msg_get msg n \<noteq> Some []"
  shows "is_auto_generated pa msg = is_automated_spec pa msg"
  using assms
  unfolding is_auto_generated_iff is_automated_spec_def Let_def truthy_iff
  by (auto split: option.splits)

text \<open>C5: the classifier never skips a message the spec would answer: whatever it calls
  automated is automated by the rules of spec section 4.1.\<close>

theorem is_auto_generated_imp_spec:
  "is_auto_generated pa msg \<longrightarrow> is_automated_spec pa msg"
  unfolding is_auto_generated_iff is_automated_spec_def Let_def truthy_iff
  by (auto split: option.splits)

subsection \<open>Witnesses\<close>

theorem is_auto_generated_eq_spec_witness:
  "is_auto_generated (\<lambda>_. ([], [])) [(''Precedence'', ''Bulk'')] =
   is_automated_spec (\<lambda>_. ([], [])) [(''Precedence'', ''Bulk'')]"
proof -
  have h: "\<forall>n \<in> set [''Auto-Submitted'', ''List-Id'', ''List-Unsubscribe''].
      msg_get [(''Precedence'', ''Bulk'')] n \<noteq> Some []"
    by code_simp
  show ?thesis using is_auto_generated_eq_spec [OF h] .
qed

theorem is_auto_generated_imp_spec_witness:
  "is_auto_generated (\<lambda>_. ([], [])) [(''Precedence'', ''list'')] \<and>
   is_automated_spec (\<lambda>_. ([], [])) [(''Precedence'', ''list'')]"
proof -
  have h: "is_auto_generated (\<lambda>_. ([], [])) [(''Precedence'', ''list'')]" by code_simp
  show ?thesis using h is_auto_generated_imp_spec [of "\<lambda>_. ([], [])" "[(''Precedence'', ''list'')]"] by simp
qed

end
