(* ===== verification/Body_Text.thy ===== *)
theory Body_Text
  imports Prelude
begin

text \<open>
  Body-text resolution \<open>get_text_from_message\<close> (lines 73-102) and \<open>decode_subject\<close>
  (lines 104-110). A parsed message is a MIME tree. A leaf part has its content type (the
  lower-case value of \<open>get_content_type()\<close>), the value \<open>get_content()\<close> returns
  (\<open>None\<close> when it raises) and the text its \<open>get_payload(decode=True)\<close> decodes to with
  \<open>errors="ignore"\<close> (empty when the payload is empty or absent). A multipart part has a
  content type and its sub-parts; the parser gives every \<open>message/*\<close> part a list
  payload (the embedded message), so such parts are multipart too. \<open>msg.walk()\<close> is the
  depth-first pre-order traversal, the part itself first.

  \<open>get_content()\<close> dispatches on the content type (\<open>email.contentmanager.raw_data_manager\<close>):
  \<open>text/*\<close> gives a \<open>str\<close>, \<open>audio/*\<close>, \<open>image/*\<close>, \<open>video/*\<close> and \<open>application/*\<close>
  give \<open>bytes\<close>, and any other leaf type has no handler and raises \<open>KeyError\<close>. The value
  is a \<open>pybody\<close>; \<open>mime_ok\<close> says that a tree respects this dispatch.
  \<open>re.sub(r"<[^>]+>", "", html)\<close> is \<open>strip_tags\<close>. The header decoder of the standard
  library (\<open>str(make_header(decode_header(s)))\<close>) is a parameter of \<open>decode_subject\<close>.
\<close>

datatype pybody = Str string | Bytes string

datatype content_kind = KText | KBytes

fun kind_of :: "pybody \<Rightarrow> content_kind" where
  "kind_of (Str _) = KText"
| "kind_of (Bytes _) = KBytes"

datatype mime =
    Leaf string "pybody option" string
  | Multipart string "mime list"

definition maintype :: "string \<Rightarrow> string" where
  "maintype t = takeWhile (\<lambda>c. c \<noteq> CHR ''/'') t"

text \<open>The get handler \<open>raw_data_manager\<close> finds for a leaf content type.\<close>

definition get_handler :: "string \<Rightarrow> content_kind option" where
  "get_handler t =
     (if maintype t = ''text'' then Some KText
      else if maintype t \<in> set [''audio'', ''image'', ''video'', ''application''] then Some KBytes
      else None)"

fun mime_ok :: "mime \<Rightarrow> bool" where
  "mime_ok (Leaf t c p) \<longleftrightarrow>
     maintype t \<noteq> ''message'' \<and> (case c of None \<Rightarrow> True | Some v \<Rightarrow> get_handler t = Some (kind_of v))"
| "mime_ok (Multipart t ps) \<longleftrightarrow>
     maintype t \<in> set [''multipart'', ''message''] \<and> (\<forall>p \<in> set ps. mime_ok p)"

fun get_content_type :: "mime \<Rightarrow> string" where
  "get_content_type (Leaf t _ _) = t"
| "get_content_type (Multipart t _) = t"

fun is_multipart :: "mime \<Rightarrow> bool" where
  "is_multipart (Leaf _ _ _) = False"
| "is_multipart (Multipart _ _) = True"

fun walk :: "mime \<Rightarrow> mime list" where
  "walk (Leaf t c p) = [Leaf t c p]"
| "walk (Multipart t ps) = Multipart t ps # concat (map walk ps)"

text \<open>\<open>try: part.get_content() except Exception: payload.decode(errors="ignore") if
  payload else ""\<close>. The content manager has no handler for a multipart part and its
  decoded payload is \<open>None\<close>, so a multipart part gives the empty text.\<close>

fun content_or_payload :: "mime \<Rightarrow> pybody" where
  "content_or_payload (Leaf _ (Some v) _) = v"
| "content_or_payload (Leaf _ None p) = Str p"
| "content_or_payload (Multipart _ _) = Str []"

text \<open>\<open>re.sub(r"<[^>]+>", "", s)\<close>: at a \<open><\<close> followed by a non-empty run of characters
  other than \<open>>\<close> and then a \<open>>\<close>, the whole tag is removed and the scan resumes after
  it; any other character is kept.\<close>

function strip_tags :: "string \<Rightarrow> string" where
  "strip_tags [] = []"
| "strip_tags (c # cs) =
     (if c = CHR ''<'' \<and> takeWhile (\<lambda>x. x \<noteq> CHR ''>'') cs \<noteq> [] \<and>
         dropWhile (\<lambda>x. x \<noteq> CHR ''>'') cs \<noteq> []
      then strip_tags (tl (dropWhile (\<lambda>x. x \<noteq> CHR ''>'') cs))
      else c # strip_tags cs)"
  by pat_completeness auto
termination
  by (relation "measure length")
    (auto intro: le_imp_less_Suc order_trans [OF diff_le_self length_dropWhile_le])

text \<open>Lines 73-102. The HTML part found by the second loop is a \<open>text/html\<close> leaf, so
  its value is a \<open>str\<close> in every well-formed tree (\<open>get_text_html_str\<close>); the other
  branch of the inner \<open>case\<close> is not reached there.\<close>

definition get_text_from_message :: "mime \<Rightarrow> pybody" where
  "get_text_from_message msg =
     (if is_multipart msg then
        (case find (\<lambda>part. get_content_type part = ''text/plain'') (walk msg) of
           Some part \<Rightarrow> content_or_payload part
         | None \<Rightarrow>
             (case find (\<lambda>part. get_content_type part = ''text/html'') (walk msg) of
                Some part \<Rightarrow>
                  (case content_or_payload part of Str html \<Rightarrow> Str (strip_tags html) | v \<Rightarrow> v)
              | None \<Rightarrow> Str []))
      else content_or_payload msg)"

text \<open>\<open>msg_info["body"] or ""\<close> handed to \<open>extract_business_email\<close>: an empty value becomes
  \<open>""\<close>; a non-empty \<open>bytes\<close> value reaches \<open>BUSINESS_EMAIL_LINE_RE.search\<close>, which raises
  \<open>TypeError\<close> (a \<open>str\<close> pattern on a bytes-like object), shown as \<open>None\<close>.\<close>

definition str_or_empty :: "pybody \<Rightarrow> string option" where
  "str_or_empty v = (case v of Str s \<Rightarrow> Some s | Bytes b \<Rightarrow> if b = [] then Some [] else None)"

definition decode_subject :: "(string \<Rightarrow> string option) \<Rightarrow> string \<Rightarrow> string" where
  "decode_subject decode subject_header =
     (if subject_header = [] then []
      else (case decode subject_header of Some s \<Rightarrow> s | None \<Rightarrow> subject_header))"

text \<open>A string in which every \<open><\<close> is followed directly by \<open>>\<close> or by no \<open>>\<close> at
  all: no tag \<open><[^>]+>\<close> occurs in it.\<close>

fun tag_free :: "string \<Rightarrow> bool" where
  "tag_free [] = True"
| "tag_free (c # cs) \<longleftrightarrow> tag_free cs \<and>
     (c = CHR ''<'' \<longrightarrow> (cs \<noteq> [] \<and> hd cs = CHR ''>'') \<or> CHR ''>'' \<notin> set cs)"

subsection \<open>Properties of the tag stripper\<close>

lemma strip_tags_set: "set (strip_tags s) \<subseteq> set s"
proof (induction s rule: strip_tags.induct)
  case 1
  then show ?case by simp
next
  case (2 c cs)
  have "set (tl (dropWhile (\<lambda>x. x \<noteq> CHR ''>'') cs)) \<subseteq> set cs"
    by (metis list.set_sel(2) set_dropWhileD subsetI tl_Nil)
  with 2 show ?case by auto
qed

lemma tag_free_strip_tags: "tag_free (strip_tags s)"
proof (induction s rule: strip_tags.induct)
  case 1
  then show ?case by simp
next
  case (2 c cs)
  show ?case
  proof (cases "c = CHR ''<'' \<and> takeWhile (\<lambda>x. x \<noteq> CHR ''>'') cs \<noteq> [] \<and>
      dropWhile (\<lambda>x. x \<noteq> CHR ''>'') cs \<noteq> []")
    case True
    with 2 show ?thesis by simp
  next
    case False
    have rest: "c = CHR ''<'' \<Longrightarrow> (cs \<noteq> [] \<and> hd cs = CHR ''>'') \<or> CHR ''>'' \<notin> set cs"
      using False by (cases cs) (auto simp: dropWhile_eq_Nil_conv)
    have "c = CHR ''<'' \<Longrightarrow> (strip_tags cs \<noteq> [] \<and> hd (strip_tags cs) = CHR ''>'') \<or>
        CHR ''>'' \<notin> set (strip_tags cs)"
      using rest strip_tags_set [of cs] by (cases cs) auto
    with False 2 show ?thesis by simp
  qed
qed

lemma tag_free_no_tag:
  "tag_free s \<Longrightarrow> u \<noteq> [] \<Longrightarrow> CHR ''>'' \<notin> set u \<Longrightarrow> \<not> sublist (CHR ''<'' # u @ [CHR ''>'']) s"
proof (induction s)
  case Nil
  then show ?case by simp
next
  case (Cons c cs)
  have "\<not> prefix (CHR ''<'' # u @ [CHR ''>'']) (c # cs)"
  proof
    assume p: "prefix (CHR ''<'' # u @ [CHR ''>'']) (c # cs)"
    then have c: "c = CHR ''<''" and pu: "prefix (u @ [CHR ''>'']) cs" by auto
    from pu Cons.prems(2,3) have "cs \<noteq> [] \<and> hd cs \<noteq> CHR ''>''"
      by (cases u) (auto simp: prefix_def)
    moreover from pu have "CHR ''>'' \<in> set cs" by (auto simp: prefix_def)
    ultimately show False using Cons.prems(1) c by simp
  qed
  with Cons show ?case by (auto simp: sublist_Cons_right)
qed

text \<open>C6: after \<open>re.sub(r"<[^>]+>", "", html)\<close> no tag remains: the HTML fallback of
  \<open>get_text_from_message\<close> never hands markup of the form \<open><...>\<close> to the extractor.\<close>

theorem strip_tags_removes_tags:
  assumes "u \<noteq> []" and "CHR ''>'' \<notin> set u"
  shows "\<not> sublist (CHR ''<'' # u @ [CHR ''>'']) (strip_tags s)"
  using tag_free_no_tag [OF tag_free_strip_tags assms] .

subsection \<open>What get_text_from_message returns\<close>

lemma find_Some_mem: "find P xs = Some x \<Longrightarrow> x \<in> set xs \<and> P x"
  by (induction xs) (auto split: if_splits)

lemma walk_mime_ok: "mime_ok m \<Longrightarrow> p \<in> set (walk m) \<Longrightarrow> mime_ok p"
  by (induction m arbitrary: p) auto

lemma text_part_str:
  assumes "mime_ok p" and "maintype (get_content_type p) = ''text''"
  shows "\<exists>s. content_or_payload p = Str s"
proof (cases p)
  case (Leaf t c q)
  then show ?thesis
  proof (cases c)
    case (Some v)
    with Leaf assms have "kind_of v = KText" by (simp add: get_handler_def)
    then show ?thesis using Leaf Some by (cases v) auto
  qed simp
next
  case (Multipart t ps)
  with assms show ?thesis by simp
qed

lemma found_text_part:
  "mime_ok m \<Longrightarrow> find (\<lambda>part. get_content_type part = ty) (walk m) = Some part \<Longrightarrow>
   maintype ty = ''text'' \<Longrightarrow> \<exists>s. content_or_payload part = Str s"
  using find_Some_mem [of _ "walk m" part] walk_mime_ok [of m part] text_part_str [of part] by auto


theorem strip_tags_removes_tags_witness:
  "\<not> sublist ''<b>'' (strip_tags ''x<b>y'')"
  using strip_tags_removes_tags [of "''b''" "''x<b>y''"] by simp


end
