(* ===== verification/Mailbox.thy ===== *)
theory Mailbox
  imports Classifier Body_Text
begin

text \<open>
  The mailbox service and \<open>fetch_unseen_messages\<close> (lines 112-151). The world the
  program acts on is a record \<open>world\<close>: the INBOX on the server (each message with its
  sequence number, header fields, MIME tree and flags), the replies the SMTP server has
  accepted, and the number of external calls made so far. Every external call (an IMAP
  or SMTP command, opening or closing a connection) reads its outcome from an oracle
  indexed by that number: \<open>OK\<close>, \<open>NO\<close> (the server refused) or \<open>Raise e\<close> (the library
  raised \<open>e\<close>). Each operation is a function \<open>world \<Rightarrow> (exn + 'a) \<times> world\<close>: \<open>Inl e\<close> is
  a raised exception, and the world returned with it keeps the effects made before it.
  The server follows RFC 3501; whether a \<open>FETCH (RFC822 FLAGS)\<close> sets \<open>\Seen\<close> (RFC 3501
  says it does, the spec's mailbox service of section 1 does not) is the parameter
  \<open>fetch_sets_seen\<close>. Library functions the code calls on parsed messages
  (\<open>email.utils.parseaddr\<close>, the header decoder) are parameters of the environment.
\<close>

datatype flag = Seen | Answered

text \<open>Exception classes the code can meet; the \<open>except\<close> clauses of the code select
  among them.\<close>

datatype exn =
    IMAPError | OSError | GAIError | SMTPError | SMTPServerDisconnected
  | ValueError | KeyError | IndexError | TypeError

datatype outcome = OK | NO | Raise exn

record mail =
  hdrs :: headers
  content :: mime
  flags :: "flag set"

record outmsg =
  out_subject :: string
  out_from :: string
  out_to :: string
  out_in_reply_to :: "string option"
  out_body :: string

text \<open>\<open>sent\<close> pairs each accepted reply with the sequence number of the message the
  cycle was processing when it was sent (recorded by the model, not transmitted).\<close>

record world =
  inbox :: "(nat \<times> mail) list"
  sent :: "(nat \<times> outmsg) list"
  calls :: nat

record environment =
  ext_oracle :: "nat \<Rightarrow> outcome"
  fetch_sets_seen :: bool
  env_parseaddr :: "string \<Rightarrow> string \<times> string"
  env_decode_header :: "string \<Rightarrow> string option"

subsection \<open>External calls\<close>

definition ext_call :: "environment \<Rightarrow> world \<Rightarrow> outcome \<times> world" where
  "ext_call E w = (ext_oracle E (calls w), w\<lparr>calls := Suc (calls w)\<rparr>)"

text \<open>A call whose refusal the caller ignores (opening a connection, \<open>select\<close>,
  \<open>logout\<close>).\<close>

definition call_status :: "environment \<Rightarrow> world \<Rightarrow> (exn + unit) \<times> world" where
  "call_status E w =
     (case ext_call E w of (Raise e, w') \<Rightarrow> (Inl e, w') | (_, w') \<Rightarrow> (Inr (), w'))"

text \<open>A call the library turns into an exception when the server refuses it
  (\<open>IMAP4.login\<close> raises \<open>IMAP4.error\<close>; \<open>SMTP.login\<close> and \<open>send_message\<close> raise an
  \<open>SMTPException\<close>).\<close>

definition call_checked :: "exn \<Rightarrow> environment \<Rightarrow> world \<Rightarrow> (exn + unit) \<times> world" where
  "call_checked err E w =
     (case ext_call E w of
        (OK, w') \<Rightarrow> (Inr (), w')
      | (NO, w') \<Rightarrow> (Inl err, w')
      | (Raise e, w') \<Rightarrow> (Inl e, w'))"

subsection \<open>The IMAP server\<close>

definition unseen_nums :: "(nat \<times> mail) list \<Rightarrow> nat list" where
  "unseen_nums mb = map fst (filter (\<lambda>(n, m). Seen \<notin> flags m) mb)"

definition add_flags :: "nat \<Rightarrow> flag set \<Rightarrow> (nat \<times> mail) list \<Rightarrow> (nat \<times> mail) list" where
  "add_flags n fs mb = map (\<lambda>(k, m). if k = n then (k, m\<lparr>flags := flags m \<union> fs\<rparr>) else (k, m)) mb"

text \<open>\<open>imap.search(None, 'UNSEEN')\<close>: \<open>None\<close> stands for a status other than \<open>OK\<close>.\<close>

definition imap_search_unseen :: "environment \<Rightarrow> world \<Rightarrow> (exn + nat list option) \<times> world" where
  "imap_search_unseen E w =
     (case ext_call E w of
        (OK, w') \<Rightarrow> (Inr (Some (unseen_nums (inbox w'))), w')
      | (NO, w') \<Rightarrow> (Inr None, w')
      | (Raise e, w') \<Rightarrow> (Inl e, w'))"

text \<open>\<open>imap.fetch(num, "(RFC822 FLAGS)")\<close>: \<open>None\<close> stands for a status other than \<open>OK\<close>.\<close>

definition imap_fetch :: "environment \<Rightarrow> nat \<Rightarrow> world \<Rightarrow> (exn + mail option) \<times> world" where
  "imap_fetch E num w =
     (case ext_call E w of
        (OK, w') \<Rightarrow>
          (case map_of (inbox w') num of
             None \<Rightarrow> (Inr None, w')
           | Some m \<Rightarrow>
               (Inr (Some m),
                if fetch_sets_seen E then w'\<lparr>inbox := add_flags num {Seen} (inbox w')\<rparr> else w'))
      | (NO, w') \<Rightarrow> (Inr None, w')
      | (Raise e, w') \<Rightarrow> (Inl e, w'))"

text \<open>\<open>imap_conn.store(num, "+FLAGS", flags)\<close>; the code never reads its status.\<close>

definition imap_store :: "environment \<Rightarrow> nat \<Rightarrow> flag set \<Rightarrow> world \<Rightarrow> (exn + unit) \<times> world" where
  "imap_store E num fs w =
     (case ext_call E w of
        (OK, w') \<Rightarrow> (Inr (), w'\<lparr>inbox := add_flags num fs (inbox w')\<rparr>)
      | (NO, w') \<Rightarrow> (Inr (), w')
      | (Raise e, w') \<Rightarrow> (Inl e, w'))"

text \<open>\<open>IMAP4_SSL(host, port)\<close>, \<open>login\<close> and \<open>select("INBOX")\<close>, as both functions of the
  code open a connection (lines 119-121 and 229-231).\<close>

definition imap_open :: "environment \<Rightarrow> world \<Rightarrow> (exn + unit) \<times> world" where
  "imap_open E w =
     (case call_status E w of
        (Inl e, w1) \<Rightarrow> (Inl e, w1)
      | (Inr _, w1) \<Rightarrow>
          (case call_checked IMAPError E w1 of
             (Inl e, w2) \<Rightarrow> (Inl e, w2)
           | (Inr _, w2) \<Rightarrow> call_status E w2))"

subsection \<open>fetch_unseen_messages\<close>

text \<open>The dictionary built for one message (lines 135-147).\<close>

record msg_info =
  mi_num :: nat
  mi_from_addr :: string
  mi_from_name :: string
  mi_subject :: string
  mi_body :: pybody
  mi_raw :: headers

definition parse_message :: "environment \<Rightarrow> nat \<Rightarrow> mail \<Rightarrow> msg_info" where
  "parse_message E num m =
     (let from_header = msg_get_default (hdrs m) ''From'';
          (from_name, from_addr) = env_parseaddr E from_header;
          subj = decode_subject (env_decode_header E) (msg_get_default (hdrs m) ''Subject'');
          text = get_text_from_message (content m)
      in \<lparr>mi_num = num, mi_from_addr = from_addr, mi_from_name = from_name, mi_subject = subj,
          mi_body = text, mi_raw = hdrs m\<rparr>)"

text \<open>The loop of lines 127-147; an exception leaves the loop with the messages
  collected so far.\<close>

fun fetch_each :: "environment \<Rightarrow> nat list \<Rightarrow> msg_info list \<Rightarrow> world \<Rightarrow>
    (exn + unit) \<times> msg_info list \<times> world" where
  "fetch_each E [] messages w = (Inr (), messages, w)"
| "fetch_each E (num # nums) messages w =
     (case imap_fetch E num w of
        (Inl e, w') \<Rightarrow> (Inl e, messages, w')
      | (Inr None, w') \<Rightarrow> fetch_each E nums messages w'
      | (Inr (Some m), w') \<Rightarrow> fetch_each E nums (messages @ [parse_message E num m]) w')"

text \<open>Lines 117-151. Every exception is caught by the \<open>except Exception\<close> of line 149,
  which returns the messages collected so far; a failing \<open>logout\<close> therefore changes
  nothing but the call count.\<close>

definition fetch_unseen_messages :: "environment \<Rightarrow> world \<Rightarrow> msg_info list \<times> world" where
  "fetch_unseen_messages E w =
     (case imap_open E w of
        (Inl e, w1) \<Rightarrow> ([], w1)
      | (Inr _, w1) \<Rightarrow>
          (case imap_search_unseen E w1 of
             (Inl e, w2) \<Rightarrow> ([], w2)
           | (Inr None, w2) \<Rightarrow> ([], snd (call_status E w2))
           | (Inr (Some nums), w2) \<Rightarrow>
               (case fetch_each E nums [] w2 of
                  (Inl e, messages, w3) \<Rightarrow> (messages, w3)
                | (Inr _, messages, w3) \<Rightarrow> (messages, snd (call_status E w3)))))"


subsection \<open>How the operations change the world\<close>

text \<open>\<open>world_le w w'\<close>: \<open>w'\<close> has the messages of \<open>w\<close> in the same order, with the same
  headers and content and at least their flags, the replies of \<open>w\<close> followed by
  possibly more, and at least as many calls.\<close>

definition mail_le :: "nat \<times> mail \<Rightarrow> nat \<times> mail \<Rightarrow> bool" where
  "mail_le a b \<longleftrightarrow>
     fst a = fst b \<and> hdrs (snd a) = hdrs (snd b) \<and> content (snd a) = content (snd b) \<and>
     flags (snd a) \<subseteq> flags (snd b)"

definition world_le :: "world \<Rightarrow> world \<Rightarrow> bool" where
  "world_le w w' \<longleftrightarrow> list_all2 mail_le (inbox w) (inbox w') \<and> prefix (sent w) (sent w') \<and> calls w \<le> calls w'"

lemma world_le_refl [simp]: "world_le w w"
  by (simp add: world_le_def mail_le_def list_all2_refl)

lemma mail_le_trans: "list_all2 mail_le a b \<Longrightarrow> list_all2 mail_le b c \<Longrightarrow> list_all2 mail_le a c"
  by (induction a b arbitrary: c rule: list_all2_induct) (auto simp: list_all2_Cons1 mail_le_def)

lemma world_le_trans [trans]: "world_le u v \<Longrightarrow> world_le v w \<Longrightarrow> world_le u w"
  unfolding world_le_def by (auto intro: mail_le_trans prefix_order.trans)

lemma ext_call_eq: "ext_call E w = (r, w') \<Longrightarrow> w' = w\<lparr>calls := Suc (calls w)\<rparr> \<and> r = ext_oracle E (calls w)"
  by (auto simp: ext_call_def)

lemma world_le_calls: "world_le w (w\<lparr>calls := Suc (calls w)\<rparr>)"
  by (simp add: world_le_def mail_le_def list_all2_refl)

lemma add_flags_le: "list_all2 mail_le mb (add_flags n fs mb)"
  by (induction mb) (auto simp: add_flags_def mail_le_def)

lemma world_le_add_flags: "world_le w w' \<Longrightarrow> world_le w (w'\<lparr>inbox := add_flags n fs (inbox w')\<rparr>)"
  unfolding world_le_def
  unfolding world_le_def by (auto intro: mail_le_trans [OF _ add_flags_le])

lemma world_le_sent: "world_le w w' \<Longrightarrow> world_le w (w'\<lparr>sent := sent w' @ x\<rparr>)"
  unfolding world_le_def by (auto intro: prefix_order.trans)

lemma ext_call_le [world_le_step]: "ext_call E w = (r, w') \<Longrightarrow> world_le w w'"
  using ext_call_eq world_le_calls by blast

lemma call_status_le [world_le_step]: "call_status E w = (r, w') \<Longrightarrow> world_le w w'"
  by (auto simp: call_status_def split: prod.splits outcome.splits dest: ext_call_le)

lemma call_status_snd_le: "world_le w (snd (call_status E w))"
  by (cases "call_status E w") (auto dest: call_status_le)

lemma call_checked_le [world_le_step]: "call_checked err E w = (r, w') \<Longrightarrow> world_le w w'"
  by (auto simp: call_checked_def split: prod.splits outcome.splits dest: ext_call_le)

lemma imap_search_unseen_le [world_le_step]: "imap_search_unseen E w = (r, w') \<Longrightarrow> world_le w w'"
  by (auto simp: imap_search_unseen_def split: prod.splits outcome.splits dest: ext_call_le)

lemma imap_fetch_le [world_le_step]: "imap_fetch E n w = (r, w') \<Longrightarrow> world_le w w'"
  by (auto simp: imap_fetch_def split: prod.splits outcome.splits option.splits if_splits
      dest: ext_call_le intro: world_le_add_flags)

lemma imap_store_le [world_le_step]: "imap_store E n fs w = (r, w') \<Longrightarrow> world_le w w'"
  by (auto simp: imap_store_def split: prod.splits outcome.splits
      dest: ext_call_le intro: world_le_add_flags)

lemma imap_open_le [world_le_step]: "imap_open E w = (r, w') \<Longrightarrow> world_le w w'"
  by (auto simp: imap_open_def split: prod.splits sum.splits
      dest!: call_status_le call_checked_le intro: world_le_trans)

lemma fetch_each_le [world_le_step]: "fetch_each E nums ms w = (r, ms', w') \<Longrightarrow> world_le w w'"
proof (induction E nums ms w arbitrary: r ms' w' rule: fetch_each.induct)
  case (1 E messages w)
  then show ?case by simp
next
  case (2 E num nums messages w)
  then show ?case
    by (auto split: prod.splits sum.splits option.splits dest!: imap_fetch_le intro: world_le_trans)
qed

lemma fetch_unseen_messages_le [world_le_step]: "fetch_unseen_messages E w = (ms, w') \<Longrightarrow> world_le w w'"
  unfolding fetch_unseen_messages_def
  by (auto split: prod.splits sum.splits option.splits
      dest!: imap_open_le imap_search_unseen_le fetch_each_le
      intro: world_le_trans [OF _ call_status_snd_le] world_le_trans)

end
