(* ===== verification/Config.thy ===== *)
theory Config
  imports Mailbox
begin

text \<open>
  The configuration read when the module is loaded (lines 17-26). The process
  environment is a function \<open>getenv\<close> from variable names to values. \<open>int(s)\<close> on a
  string is \<open>py_int\<close>, as CPython computes it: non-ASCII whitespace becomes a space
  (\<open>_PyUnicode_TransformDecimalAndSpaceToASCII\<close>; below U+0100 that is U+0085 and
  U+00A0), ASCII characters are kept, and \<open>PyLong_FromString\<close> then skips the ASCII
  whitespace \<open>\t \n \v \f \r\<close> and space at both ends (\<open>int_space\<close>; the separators
  U+001C..U+001F, which \<open>str.isspace\<close> accepts, are not skipped); then one optional
  sign, and decimal digits with single underscores between them; anything else raises
  \<open>ValueError\<close> (below U+0100 the only decimal digits are 0-9). More than 4300 digits
  raise \<open>ValueError\<close> as well (the default \<open>sys.int_max_str_digits\<close> of CPython 3.11 and
  later). \<open>str(n)\<close> of a natural number is \<open>dec_digits\<close>. The logging level (line 26)
  only configures logging and is not modelled.
\<close>

record config =
  cfg_imap_host :: string
  cfg_imap_port :: int
  cfg_smtp_host :: string
  cfg_smtp_port :: int
  cfg_username :: "string option"
  cfg_password :: "string option"
  cfg_poll_interval :: int
  cfg_test_mode :: bool

definition digit_val :: "char \<Rightarrow> nat" where
  "digit_val c = code c - 48"

definition digits_ok :: "string \<Rightarrow> bool" where
  "digits_ok ds \<longleftrightarrow>
     ds \<noteq> [] \<and> is_digit (hd ds) \<and> is_digit (last ds) \<and>
     list_all (\<lambda>c. is_digit c \<or> c = CHR ''_'') ds \<and> \<not> py_in ''__'' ds"

definition digits_value :: "string \<Rightarrow> nat" where
  "digits_value ds = foldl (\<lambda>acc c. 10 * acc + digit_val c) 0 (filter is_digit ds)"

definition int_space :: "char \<Rightarrow> bool" where
  "int_space c \<longleftrightarrow> (let n = code c in (9 \<le> n \<and> n \<le> 13) \<or> n = 32 \<or> n = 133 \<or> n = 160)"

definition int_strip :: "string \<Rightarrow> string" where
  "int_strip s = rev (dropWhile int_space (rev (dropWhile int_space s)))"

definition py_int :: "string \<Rightarrow> int option" where
  "py_int s =
     (let t = int_strip s;
          (neg, ds) = (if t \<noteq> [] \<and> hd t = CHR ''-'' then (True, tl t)
                       else if t \<noteq> [] \<and> hd t = CHR ''+'' then (False, tl t)
                       else (False, t))
      in if digits_ok ds \<and> length (filter is_digit ds) \<le> 4300
         then Some (if neg then - int (digits_value ds) else int (digits_value ds))
         else None)"

fun dec_digits :: "nat \<Rightarrow> string" where
  "dec_digits n =
     (if n < 10 then [char_of (48 + n)] else dec_digits (n div 10) @ [char_of (48 + n mod 10)])"

text \<open>\<open>int(os.getenv(name, default))\<close> with an integer default.\<close>

definition getenv_int :: "(string \<Rightarrow> string option) \<Rightarrow> string \<Rightarrow> int \<Rightarrow> exn + int" where
  "getenv_int getenv name d =
     (case getenv name of
        None \<Rightarrow> Inr d
      | Some s \<Rightarrow> (case py_int s of None \<Rightarrow> Inl ValueError | Some n \<Rightarrow> Inr n))"

definition getenv_default :: "(string \<Rightarrow> string option) \<Rightarrow> string \<Rightarrow> string \<Rightarrow> string" where
  "getenv_default getenv name d = (case getenv name of None \<Rightarrow> d | Some s \<Rightarrow> s)"

text \<open>Line 25.\<close>

definition test_mode_of :: "(string \<Rightarrow> string option) \<Rightarrow> bool" where
  "test_mode_of getenv \<longleftrightarrow>
     py_lower (getenv_default getenv ''TEST_MODE'' ''false'') \<in> set [''1'', ''true'', ''yes'']"

text \<open>Lines 18-25 in the order the module evaluates them; the first \<open>int()\<close> that fails
  aborts the import with \<open>ValueError\<close>.\<close>

definition load_config :: "(string \<Rightarrow> string option) \<Rightarrow> exn + config" where
  "load_config getenv =
     (case getenv_int getenv ''IMAP_PORT'' 993 of
        Inl e \<Rightarrow> Inl e
      | Inr imap_port \<Rightarrow>
          (case getenv_int getenv ''SMTP_PORT'' 465 of
             Inl e \<Rightarrow> Inl e
           | Inr smtp_port \<Rightarrow>
               (case getenv_int getenv ''POLL_INTERVAL_SECONDS'' 120 of
                  Inl e \<Rightarrow> Inl e
                | Inr poll \<Rightarrow>
                    Inr \<lparr>cfg_imap_host = getenv_default getenv ''IMAP_HOST'' ''mail.asterionsolutions.com'',
                         cfg_imap_port = imap_port,
                         cfg_smtp_host = getenv_default getenv ''SMTP_HOST'' ''mail.asterionsolutions.com'',
                         cfg_smtp_port = smtp_port,
                         cfg_username = getenv ''OUTLOOK_USERNAME'',
                         cfg_password = getenv ''OUTLOOK_APP_PASSWORD'',
                         cfg_poll_interval = poll,
                         cfg_test_mode = test_mode_of getenv\<rparr>)))"

declare dec_digits.simps [simp del]

subsection \<open>int() and str()\<close>

lemma code_char_of_digit: "(n::nat) < 10 \<Longrightarrow> code (char_of (48 + n)) = 48 + n"
  by (simp add: code_char_of)

lemma dec_digit_is_digit: "(n::nat) < 10 \<Longrightarrow> is_digit (char_of (48 + n))"
  by (simp add: is_digit_code code_char_of_digit)

lemma dec_digits_all: "dec_digits n \<noteq> [] \<and> list_all is_digit (dec_digits n)"
proof (induction n rule: dec_digits.induct)
  case (1 n)
  then show ?case by (cases "n < 10") (simp_all add: dec_digits.simps [of n] dec_digit_is_digit)
qed

lemma digits_value_dec: "foldl (\<lambda>acc c. 10 * acc + digit_val c) 0 (dec_digits n) = n"
proof (induction n rule: dec_digits.induct)
  case (1 n)
  show ?case
  proof (cases "n < 10")
    case True
    then show ?thesis by (subst dec_digits.simps) (simp add: digit_val_def code_char_of_digit)
  next
    case False
    then have "foldl (\<lambda>acc c. 10 * acc + digit_val c) 0 (dec_digits n) =
        10 * (n div 10) + digit_val (char_of (48 + n mod 10))"
      using "1.IH" by (subst dec_digits.simps) simp
    also have "\<dots> = n" by (simp add: digit_val_def code_char_of_digit)
    finally show ?thesis .
  qed
qed

lemma digit_not_space: "is_digit c \<Longrightarrow> \<not> int_space c"
  by (auto simp: is_digit_code int_space_def Let_def)

lemma digit_not_sign: "is_digit c \<Longrightarrow> c \<noteq> CHR ''-'' \<and> c \<noteq> CHR ''+'' \<and> c \<noteq> CHR ''_''"
  by (auto simp: is_digit_code)

lemma all_digits_ok: "xs \<noteq> [] \<Longrightarrow> list_all is_digit xs \<Longrightarrow> digits_ok xs"
proof -
  assume xs: "xs \<noteq> []" "list_all is_digit xs"
  then have "CHR ''_'' \<notin> set xs" using digit_not_sign by (auto simp: list_all_iff)
  then have "\<not> py_in ''__'' xs" by (auto simp: py_in_iff_sublist dest: set_mono_sublist)
  with xs show ?thesis by (auto simp: digits_ok_def list_all_iff)
qed



text \<open>C15: loading the configuration fails only with \<open>ValueError\<close>, and it fails exactly
  when one of \<open>IMAP_PORT\<close>, \<open>SMTP_PORT\<close>, \<open>POLL_INTERVAL_SECONDS\<close> is set to a string
  \<open>int()\<close> rejects.\<close>

theorem load_config_errors:
  "(\<forall>e. load_config getenv = Inl e \<longrightarrow> e = ValueError) \<and>
   ((\<exists>cfg. load_config getenv = Inr cfg) \<longleftrightarrow>
    (\<forall>v \<in> set [''IMAP_PORT'', ''SMTP_PORT'', ''POLL_INTERVAL_SECONDS''].
       case getenv v of None \<Rightarrow> True | Some s \<Rightarrow> py_int s \<noteq> None))"
  unfolding load_config_def getenv_int_def
  by (auto split: option.splits sum.splits)

end
