(* ===== verification/Reply.thy ===== *)
theory Reply
  imports Config
begin

text \<open>
  The reply composer (the template values of lines 29-44 and lines 271-278 of
  \<open>auto_reply_if_business\<close>) and \<open>send_email_smtp\<close> (lines 153-179). \<open>str.format\<close> with
  keyword arguments is \<open>py_format\<close>: \<open>{{\<close> and \<open>}}\<close> are literal braces, \<open>{name}\<close> is the
  value of the keyword \<open>name\<close> (\<open>KeyError\<close> when there is none, \<open>IndexError\<close> for the
  positional \<open>{}\<close>), and an unmatched brace raises \<open>ValueError\<close>; conversions and format
  specifications (\<open>!r\<close>, \<open>:>10\<close>) are outside the model, the template has none.
  Assigning a header of an \<open>EmailMessage\<close> (default policy) raises \<open>ValueError\<close> when
  \<open>len(value.splitlines()) > 1\<close> (\<open>EmailPolicy.header_store_parse\<close>). The SMTP session is
  the \<open>with smtplib.SMTP_SSL(...)\<close> block: connecting, \<open>login\<close>, \<open>send_message\<close>, and the
  \<open>QUIT\<close> of \<open>SMTP.__exit__\<close>, which raises \<open>SMTPResponseException\<close> on a reply other
  than 221 and swallows \<open>SMTPServerDisconnected\<close>.
\<close>

subsection \<open>Template values\<close>

definition COMPANY_NAME :: string where
  "COMPANY_NAME = ''Asterion Solutions Pvt. Ltd.''"

definition SENDER_NAME :: string where
  "SENDER_NAME = ''Priya Sharma''"

definition REPLY_SUBJECT_PREFIX :: string where
  "REPLY_SUBJECT_PREFIX = ''Acknowledgement: ''"

definition REPLY_BODY_TEMPLATE :: string where
  "REPLY_BODY_TEMPLATE =
     ''Hello,\<newline>\<newline>'' @
     ''Thank you for contacting {company_name}. We have received your message and '' @
     ''appreciate you reaching out.\<newline>\<newline>'' @
     ''This is an automated acknowledgement to confirm receipt of your email. A member of '' @
     ''our team will review the details and respond to you as soon as possible. If your '' @
     ''matter is urgent, please reply with '' @ [CHR 0x22] @ ''URGENT'' @ [CHR 0x22] @
     '' in the subject line or contact our support team.\<newline>\<newline>'' @
     ''Best regards,\<newline>{sender_name}\<newline>{company_name}\<newline>Email: {my_address}\<newline>''"

subsection \<open>str.format\<close>

function py_format :: "(string \<times> string) list \<Rightarrow> string \<Rightarrow> exn + string" where
  "py_format kw [] = Inr []"
| "py_format kw (c # cs) =
     (if c = CHR ''{'' then
        (if cs \<noteq> [] \<and> hd cs = CHR ''{'' then map_sum id (Cons c) (py_format kw (tl cs))
         else
           (let name = takeWhile (\<lambda>x. x \<noteq> CHR ''}'') cs;
                rest = dropWhile (\<lambda>x. x \<noteq> CHR ''}'') cs
            in if rest = [] \<or> CHR ''{'' \<in> set name then Inl ValueError
               else if name = [] then Inl IndexError
               else (case map_of kw name of
                       None \<Rightarrow> Inl KeyError
                     | Some v \<Rightarrow> map_sum id (append v) (py_format kw (tl rest)))))
      else if c = CHR ''}'' then
        (if cs \<noteq> [] \<and> hd cs = CHR ''}'' then map_sum id (Cons c) (py_format kw (tl cs))
         else Inl ValueError)
      else map_sum id (Cons c) (py_format kw cs))"
  by pat_completeness auto
termination
  by (relation "measure (\<lambda>(kw, s). length s)")
    (auto intro: le_imp_less_Suc order_trans [OF diff_le_self length_dropWhile_le])

subsection \<open>Composing the reply\<close>

text \<open>\<open>username or "noreply@" + (os.getenv("IMAP_HOST") or "example.com")\<close> (line 276).\<close>

definition my_address :: "(string \<Rightarrow> string option) \<Rightarrow> string \<Rightarrow> string" where
  "my_address getenv username =
     (if username \<noteq> [] then username
      else ''noreply@'' @ (if truthy (getenv ''IMAP_HOST'') then or_empty (getenv ''IMAP_HOST'')
                          else ''example.com''))"

text \<open>Lines 272-277: the reply's subject and body.\<close>

definition compose_reply ::
    "(string \<Rightarrow> string option) \<Rightarrow> string \<Rightarrow> string \<Rightarrow> string \<Rightarrow> string \<Rightarrow> exn + string \<times> string" where
  "compose_reply getenv reply_subject_prefix reply_body_template username subj =
     (let reply_subject = reply_subject_prefix @ subj in
      case py_format [(''company_name'', COMPANY_NAME), (''sender_name'', SENDER_NAME),
                      (''my_address'', my_address getenv username)] reply_body_template of
        Inl e \<Rightarrow> Inl e
      | Inr reply_body \<Rightarrow> Inr (reply_subject, reply_body))"

subsection \<open>send_email_smtp\<close>

definition header_ok :: "string \<Rightarrow> bool" where
  "header_ok v \<longleftrightarrow> length (py_splitlines v) \<le> 1"

text \<open>\<open>SMTP.__exit__\<close>: \<open>QUIT\<close>, with \<open>r\<close> the outcome of the block it closes.\<close>

definition smtp_exit :: "environment \<Rightarrow> exn + unit \<Rightarrow> world \<Rightarrow> (exn + unit) \<times> world" where
  "smtp_exit E r w =
     (case ext_call E w of
        (OK, w') \<Rightarrow> (r, w')
      | (NO, w') \<Rightarrow> (Inl SMTPError, w')
      | (Raise SMTPServerDisconnected, w') \<Rightarrow> (r, w')
      | (Raise e, w') \<Rightarrow> (Inl e, w'))"

text \<open>Lines 173-174: \<open>server.login\<close> and \<open>server.send_message\<close>; the SMTP server
  accepts the reply when \<open>send_message\<close> succeeds.\<close>

definition smtp_transaction :: "environment \<Rightarrow> outmsg \<Rightarrow> nat \<Rightarrow> world \<Rightarrow> (exn + unit) \<times> world" where
  "smtp_transaction E msg num w =
     (case call_checked SMTPError E w of
        (Inl e, w1) \<Rightarrow> (Inl e, w1)
      | (Inr _, w1) \<Rightarrow>
          (case call_checked SMTPError E w1 of
             (Inl e, w2) \<Rightarrow> (Inl e, w2)
           | (Inr _, w2) \<Rightarrow> (Inr (), w2\<lparr>sent := sent w2 @ [(num, msg)]\<rparr>)))"

text \<open>Lines 172-174: the \<open>with\<close> block. A greeting other than 220 makes the constructor
  raise \<open>SMTPConnectError\<close>, and then no \<open>__exit__\<close> runs.\<close>

definition smtp_session :: "environment \<Rightarrow> outmsg \<Rightarrow> nat \<Rightarrow> world \<Rightarrow> (exn + unit) \<times> world" where
  "smtp_session E msg num w =
     (case call_checked SMTPError E w of
        (Inl e, w1) \<Rightarrow> (Inl e, w1)
      | (Inr _, w1) \<Rightarrow> (case smtp_transaction E msg num w1 of (r, w2) \<Rightarrow> smtp_exit E r w2))"

text \<open>Lines 158-179. \<open>num\<close> is the sequence number of the message being answered, which
  the model records with the reply.\<close>

definition send_email_smtp ::
    "environment \<Rightarrow> bool \<Rightarrow> string \<Rightarrow> string \<Rightarrow> string \<Rightarrow> string list \<Rightarrow> string option \<Rightarrow> nat \<Rightarrow>
     world \<Rightarrow> (exn + bool) \<times> world" where
  "send_email_smtp E test_mode subj body from_addr to_addrs in_reply_to num w =
     (let to = py_join '', '' to_addrs in
      if \<not> header_ok subj \<or> \<not> header_ok from_addr \<or> \<not> header_ok to \<or>
         (truthy in_reply_to \<and> \<not> header_ok (or_empty in_reply_to))
      then (Inl ValueError, w)
      else
        let msg = \<lparr>out_subject = subj, out_from = from_addr, out_to = to,
                   out_in_reply_to = (if truthy in_reply_to then in_reply_to else None),
                   out_body = body\<rparr>
        in if test_mode then (Inr True, w)
           else (case smtp_session E msg num w of
                   (Inr _, w') \<Rightarrow> (Inr True, w')
                 | (Inl e, w') \<Rightarrow>
                     if e \<in> {SMTPError, SMTPServerDisconnected, GAIError} then (Inr False, w')
                     else (Inl e, w')))"

subsection \<open>How sending changes the world\<close>

lemma smtp_exit_le [world_le_step]: "smtp_exit E r w = (r', w') \<Longrightarrow> world_le w w'"
  by (auto simp: smtp_exit_def split: prod.splits outcome.splits exn.splits dest: ext_call_le)

lemma smtp_transaction_le [world_le_step]: "smtp_transaction E msg num w = (r, w') \<Longrightarrow> world_le w w'"
  unfolding smtp_transaction_def
  by (auto split: prod.splits sum.splits dest!: call_checked_le intro: world_le_sent world_le_trans)

lemma smtp_session_le [world_le_step]: "smtp_session E msg num w = (r, w') \<Longrightarrow> world_le w w'"
  unfolding smtp_session_def
  by (auto split: prod.splits sum.splits dest!: call_checked_le smtp_transaction_le smtp_exit_le
      intro: world_le_trans)

lemma send_email_smtp_le [world_le_step]:
  "send_email_smtp E tm subj body fa tos irt num w = (r, w') \<Longrightarrow> world_le w w'"
  unfolding send_email_smtp_def Let_def
  by (auto split: prod.splits sum.splits if_splits dest!: smtp_session_le)


subsection \<open>The shipped template\<close>

lemma py_format_plain:
  "list_all (\<lambda>c. c \<noteq> CHR ''{'' \<and> c \<noteq> CHR ''}'') a \<Longrightarrow>
   py_format kw (a @ s) = map_sum id (append a) (py_format kw s)"
proof (induction a)
  case Nil
  then show ?case by (cases "py_format kw s") simp_all
next
  case (Cons c a)
  then show ?case by (cases "py_format kw s") simp_all
qed

lemma py_format_field:
  assumes "name \<noteq> []" "CHR ''{'' \<notin> set name" "CHR ''}'' \<notin> set name" "map_of kw name = Some v"
  shows "py_format kw (CHR ''{'' # name @ CHR ''}'' # s) = map_sum id (append v) (py_format kw s)"
proof -
  have nb: "\<forall>x\<in>set name. x \<noteq> CHR ''}''" using assms(3) by auto
  have tw: "takeWhile (\<lambda>x. x \<noteq> CHR ''}'') (name @ CHR ''}'' # s) = name"
    using nb by simp
  have dw: "dropWhile (\<lambda>x. x \<noteq> CHR ''}'') (name @ CHR ''}'' # s) = CHR ''}'' # s"
    using nb by simp
  have hd: "hd (name @ CHR ''}'' # s) \<noteq> CHR ''{''"
    using assms(1,2) by (cases name) auto
  show ?thesis
    using assms tw dw hd by (simp add: Let_def)
qed

lemma py_format_template:
  "py_format [(''company_name'', COMPANY_NAME), (''sender_name'', SENDER_NAME), (''my_address'', x)]
     REPLY_BODY_TEMPLATE =
   Inr (''Hello,\<newline>\<newline>Thank you for contacting '' @ COMPANY_NAME @
        ''. We have received your message and appreciate you reaching out.\<newline>\<newline>'' @
        ''This is an automated acknowledgement to confirm receipt of your email. A member of '' @
        ''our team will review the details and respond to you as soon as possible. If your '' @
        ''matter is urgent, please reply with '' @ [CHR 0x22] @ ''URGENT'' @ [CHR 0x22] @
        '' in the subject line or contact our support team.\<newline>\<newline>Best regards,\<newline>'' @
        SENDER_NAME @ ''\<newline>'' @ COMPANY_NAME @ ''\<newline>Email: '' @ x @ ''\<newline>'')"
proof -
  let ?a1 = "''Hello,\<newline>\<newline>Thank you for contacting ''"
  let ?a2 = "''. We have received your message and appreciate you reaching out.\<newline>\<newline>'' @
        ''This is an automated acknowledgement to confirm receipt of your email. A member of '' @
        ''our team will review the details and respond to you as soon as possible. If your '' @
        ''matter is urgent, please reply with '' @ [CHR 0x22] @ ''URGENT'' @ [CHR 0x22] @
        '' in the subject line or contact our support team.\<newline>\<newline>Best regards,\<newline>''"
  have t: "REPLY_BODY_TEMPLATE = ?a1 @ CHR ''{'' # ''company_name'' @ CHR ''}'' # ?a2 @
      CHR ''{'' # ''sender_name'' @ CHR ''}'' # ''\<newline>'' @ CHR ''{'' # ''company_name'' @ CHR ''}'' #
      ''\<newline>Email: '' @ CHR ''{'' # ''my_address'' @ CHR ''}'' # ''\<newline>''"
    by (simp add: REPLY_BODY_TEMPLATE_def)
  have p1: "list_all (\<lambda>c. c \<noteq> CHR ''{'' \<and> c \<noteq> CHR ''}'') ?a1" by simp
  have p2: "list_all (\<lambda>c. c \<noteq> CHR ''{'' \<and> c \<noteq> CHR ''}'') ?a2" by simp
  have p3: "list_all (\<lambda>c. c \<noteq> CHR ''{'' \<and> c \<noteq> CHR ''}'') ''\<newline>''" by simp
  have p4: "list_all (\<lambda>c. c \<noteq> CHR ''{'' \<and> c \<noteq> CHR ''}'') ''\<newline>Email: ''" by simp
  show ?thesis
    unfolding t
    by (simp only: py_format_plain [OF p1] py_format_plain [OF p2] py_format_plain [OF p3]
        py_format_plain [OF p4] py_format_field) simp_all
qed


lemma compose_reply_template:
  "\<exists>b. compose_reply getenv REPLY_SUBJECT_PREFIX REPLY_BODY_TEMPLATE username subj =
     Inr (REPLY_SUBJECT_PREFIX @ subj, b)"
  by (simp add: compose_reply_def py_format_template)

text \<open>C17: for every operator address the shipped template formats without error
  (every field it names is a keyword argument of line 277 and it has no stray brace),
  and the reply body is the template text with the company name, the sender name and
  \<open>my_address\<close> substituted; the subject is the prefix followed by the original
  subject.\<close>

theorem reply_body_of_template:
  "compose_reply getenv REPLY_SUBJECT_PREFIX REPLY_BODY_TEMPLATE username subj =
   Inr (REPLY_SUBJECT_PREFIX @ subj,
        ''Hello,\<newline>\<newline>Thank you for contacting '' @ COMPANY_NAME @
        ''. We have received your message and appreciate you reaching out.\<newline>\<newline>'' @
        ''This is an automated acknowledgement to confirm receipt of your email. A member of '' @
        ''our team will review the details and respond to you as soon as possible. If your '' @
        ''matter is urgent, please reply with '' @ [CHR 0x22] @ ''URGENT'' @ [CHR 0x22] @
        '' in the subject line or contact our support team.\<newline>\<newline>Best regards,\<newline>'' @
        SENDER_NAME @ ''\<newline>'' @ COMPANY_NAME @ ''\<newline>Email: '' @ my_address getenv username @ ''\<newline>'')"
  by (simp add: compose_reply_def py_format_template)

end
