(* ===== verification/Cycle.thy ===== *)
theory Cycle
  imports Extract Reply
begin

text \<open>
  The cycle orchestrator \<open>auto_reply_if_business\<close> (lines 213-310) and the main loop
  (lines 312-338). One message is handled by \<open>process_message\<close> (the body of the
  \<open>for\<close> loop, lines 236-305); \<open>continue\<close> ends it normally, and an exception that no
  \<open>try\<close> of the loop body catches leaves the cycle with the world as it is at that point.
  The main loop catches every exception of a cycle (line 333) and sleeps; a run of the
  program is the sequence of its cycles, between which new mail may arrive
  (\<open>reach\<close>). \<open>msg_info["subject"] or ""\<close> and \<open>msg_info["body"] or ""\<close> are the
  strings themselves, since both fields always hold a \<open>str\<close>; \<open>username\<close> is a
  non-empty string, as \<open>main\<close> checks before the first cycle.
\<close>

text \<open>Lines 237-305 for one message.\<close>

definition process_message ::
    "environment \<Rightarrow> (string \<Rightarrow> string option) \<Rightarrow> bool \<Rightarrow> string \<Rightarrow> string \<Rightarrow> string \<Rightarrow>
     msg_info \<Rightarrow> world \<Rightarrow> (exn + unit) \<times> world" where
  "process_message E getenv test_mode username reply_subject_prefix reply_body_template msg_info w =
     (let msg_num = mi_num msg_info;
          subj = mi_subject msg_info;
          body = mi_body msg_info;
          raw_msg = mi_raw msg_info;
          (skipped, w1) =
            (if is_auto_generated (env_parseaddr E) raw_msg then
               (case imap_store E msg_num {Seen} w of
                  (Inl _, w') \<Rightarrow> (False, w')
                | (Inr _, w') \<Rightarrow> (True, w'))
             else (False, w))
      in if skipped then (Inr (), w1)
         else case str_or_empty body of
           None \<Rightarrow> (Inl TypeError, w1)
         | Some body \<Rightarrow>
           let business_email = or_empty (extract_business_email body) in
           if business_email = [] then imap_store E msg_num {Seen} w1
           else if \<not> email_re_matches business_email then imap_store E msg_num {Seen} w1
           else if py_lower business_email = py_lower username then imap_store E msg_num {Seen} w1
           else
             (case compose_reply getenv reply_subject_prefix reply_body_template username subj of
                Inl e \<Rightarrow> (Inl e, w1)
              | Inr (reply_subject, reply_body) \<Rightarrow>
                  (let in_reply_to = msg_get raw_msg ''Message-ID'' in
                   case send_email_smtp E test_mode reply_subject reply_body username [business_email]
                          in_reply_to msg_num w1 of
                     (Inl e, w2) \<Rightarrow> (Inl e, w2)
                   | (Inr True, w2) \<Rightarrow> (Inr (), snd (imap_store E msg_num {Answered, Seen} w2))
                   | (Inr False, w2) \<Rightarrow> (Inr (), snd (imap_store E msg_num {Seen} w2)))))"

text \<open>Lines 236-305: the loop over the fetched messages.\<close>

fun process_all ::
    "environment \<Rightarrow> (string \<Rightarrow> string option) \<Rightarrow> bool \<Rightarrow> string \<Rightarrow> string \<Rightarrow> string \<Rightarrow>
     msg_info list \<Rightarrow> world \<Rightarrow> (exn + unit) \<times> world" where
  "process_all E getenv test_mode username pfx tmpl [] w = (Inr (), w)"
| "process_all E getenv test_mode username pfx tmpl (m # ms) w =
     (case process_message E getenv test_mode username pfx tmpl m w of
        (Inl e, w') \<Rightarrow> (Inl e, w')
      | (Inr _, w') \<Rightarrow> process_all E getenv test_mode username pfx tmpl ms w')"

text \<open>Lines 222-310.\<close>

definition auto_reply_if_business ::
    "environment \<Rightarrow> (string \<Rightarrow> string option) \<Rightarrow> bool \<Rightarrow> string \<Rightarrow> string \<Rightarrow> string \<Rightarrow>
     world \<Rightarrow> (exn + unit) \<times> world" where
  "auto_reply_if_business E getenv test_mode username reply_subject_prefix reply_body_template w =
     (let (new_messages, w1) = fetch_unseen_messages E w in
      if new_messages = [] then (Inr (), w1)
      else
        (case imap_open E w1 of
           (Inl _, w2) \<Rightarrow> (Inr (), w2)
         | (Inr _, w2) \<Rightarrow>
             (case process_all E getenv test_mode username reply_subject_prefix reply_body_template
                     new_messages w2 of
                (Inl e, w3) \<Rightarrow> (Inl e, w3)
              | (Inr _, w3) \<Rightarrow> (Inr (), snd (call_status E w3)))))"

text \<open>One iteration of the \<open>while True\<close> loop (lines 322-336): the exception of a
  cycle is logged and dropped.\<close>

definition cycle :: "environment \<Rightarrow> (string \<Rightarrow> string option) \<Rightarrow> config \<Rightarrow> world \<Rightarrow> world" where
  "cycle E getenv cfg w =
     snd (auto_reply_if_business E getenv (cfg_test_mode cfg) (or_empty (cfg_username cfg))
            REPLY_SUBJECT_PREFIX REPLY_BODY_TEMPLATE w)"

fun run_cycles :: "environment \<Rightarrow> (string \<Rightarrow> string option) \<Rightarrow> config \<Rightarrow> nat \<Rightarrow> world \<Rightarrow> world" where
  "run_cycles E getenv cfg 0 w = w"
| "run_cycles E getenv cfg (Suc n) w = run_cycles E getenv cfg n (cycle E getenv cfg w)"

text \<open>Lines 312-338 for the first \<open>n\<close> cycles: missing credentials end the process with
  exit status 1 before any cycle.\<close>

definition main :: "environment \<Rightarrow> (string \<Rightarrow> string option) \<Rightarrow> config \<Rightarrow> nat \<Rightarrow> world \<Rightarrow> int + world" where
  "main E getenv cfg n w =
     (if \<not> truthy (cfg_username cfg) \<or> \<not> truthy (cfg_password cfg) then Inl 1
      else Inr (run_cycles E getenv cfg n w))"

text \<open>The worlds a running program passes through: its cycles, and the delivery of new
  messages under fresh sequence numbers between them.\<close>

inductive reach :: "environment \<Rightarrow> (string \<Rightarrow> string option) \<Rightarrow> config \<Rightarrow> world \<Rightarrow> world \<Rightarrow> bool"
  for E getenv cfg w0 where
  init: "reach E getenv cfg w0 w0"
| step_cycle: "reach E getenv cfg w0 w \<Longrightarrow> reach E getenv cfg w0 (cycle E getenv cfg w)"
| deliver: "reach E getenv cfg w0 w \<Longrightarrow> n \<notin> fst ` set (inbox w) \<Longrightarrow>
    reach E getenv cfg w0 (w\<lparr>inbox := inbox w @ [(n, m)]\<rparr>)"

text \<open>\<open>same_mail w w'\<close>: the INBOX and the replies are unchanged (only calls were made).\<close>

definition same_mail :: "world \<Rightarrow> world \<Rightarrow> bool" where
  "same_mail w w' \<longleftrightarrow> inbox w' = inbox w \<and> sent w' = sent w"

text \<open>\<open>answers u mi r\<close>: \<open>r\<close> is a reply to the fetched message \<open>mi\<close>, sent from \<open>u\<close> to the
  address extracted from its body, which is not \<open>u\<close>. \<open>from_inbox mb mi\<close>: \<open>mi\<close> is the
  parsed form of the message of \<open>mb\<close> with its number. \<open>reply_ok u mb r\<close>: \<open>r\<close> answers
  a message of \<open>mb\<close> at the address extracted from that message's body.\<close>

definition answers :: "string \<Rightarrow> msg_info \<Rightarrow> nat \<times> outmsg \<Rightarrow> bool" where
  "answers username mi r \<longleftrightarrow>
     fst r = mi_num mi \<and>
     map_option extract_business_email (str_or_empty (mi_body mi)) = Some (Some (out_to (snd r))) \<and>
     py_lower (out_to (snd r)) \<noteq> py_lower username \<and> out_from (snd r) = username"

definition from_inbox :: "(nat \<times> mail) list \<Rightarrow> msg_info \<Rightarrow> bool" where
  "from_inbox mb mi \<longleftrightarrow>
     map_option (\<lambda>m. get_text_from_message (content m)) (map_of mb (mi_num mi)) = Some (mi_body mi)"

definition reply_ok :: "string \<Rightarrow> (nat \<times> mail) list \<Rightarrow> nat \<times> outmsg \<Rightarrow> bool" where
  "reply_ok username mb r \<longleftrightarrow>
     map_option (\<lambda>m. map_option extract_business_email (str_or_empty (get_text_from_message (content m))))
       (map_of mb (fst r)) = Some (Some (Some (out_to (snd r)))) \<and>
     py_lower (out_to (snd r)) \<noteq> py_lower username \<and> out_from (snd r) = username"

text \<open>\<open>seen_in mb n\<close>: message \<open>n\<close> of \<open>mb\<close> carries \<open>\Seen\<close>.\<close>

definition seen_in :: "(nat \<times> mail) list \<Rightarrow> nat \<Rightarrow> bool" where
  "seen_in mb n \<longleftrightarrow> (case map_of mb n of None \<Rightarrow> False | Some m \<Rightarrow> Seen \<in> flags m)"

subsection \<open>How a cycle changes the world\<close>

lemma imap_store_snd_le: "world_le w (snd (imap_store E n fs w))"
  by (cases "imap_store E n fs w") (auto dest: imap_store_le)

lemma process_message_le [world_le_step]:
  "process_message E g tm u pfx tmpl m w = (r, w') \<Longrightarrow> world_le w w'"
  unfolding process_message_def Let_def
  by (auto split: prod.splits sum.splits if_splits bool.splits option.splits
      dest!: imap_store_le send_email_smtp_le
      intro: world_le_trans [OF _ imap_store_snd_le] world_le_trans)

lemma process_all_le [world_le_step]:
  "process_all E g tm u pfx tmpl ms w = (r, w') \<Longrightarrow> world_le w w'"
proof (induction ms arbitrary: w)
  case Nil
  then show ?case by simp
next
  case (Cons m ms)
  then show ?case
    by (auto split: prod.splits sum.splits dest!: process_message_le intro: world_le_trans)
qed

lemma auto_reply_if_business_le [world_le_step]:
  "auto_reply_if_business E g tm u pfx tmpl w = (r, w') \<Longrightarrow> world_le w w'"
  unfolding auto_reply_if_business_def Let_def
  by (auto split: prod.splits sum.splits if_splits
      dest!: fetch_unseen_messages_le imap_open_le process_all_le
      intro: world_le_trans [OF _ call_status_snd_le] world_le_trans)

lemma cycle_le [world_le_step]: "world_le w (cycle E getenv cfg w)"
  unfolding cycle_def
  by (cases "auto_reply_if_business E getenv (cfg_test_mode cfg) (or_empty (cfg_username cfg))
      REPLY_SUBJECT_PREFIX REPLY_BODY_TEMPLATE w") (auto dest: auto_reply_if_business_le)


subsection \<open>Cycles over an INBOX without unseen messages\<close>

lemma same_mail_trans: "same_mail u v \<Longrightarrow> same_mail v w \<Longrightarrow> same_mail u w"
  by (simp add: same_mail_def)

lemma ext_call_same: "ext_call E w = (r, w') \<Longrightarrow> same_mail w w'"
  by (auto simp: ext_call_def same_mail_def)

lemma call_status_same: "call_status E w = (r, w') \<Longrightarrow> same_mail w w'"
  by (auto simp: call_status_def split: prod.splits outcome.splits dest: ext_call_same)

lemma call_checked_same: "call_checked err E w = (r, w') \<Longrightarrow> same_mail w w'"
  by (auto simp: call_checked_def split: prod.splits outcome.splits dest: ext_call_same)

lemma imap_open_same: "imap_open E w = (r, w') \<Longrightarrow> same_mail w w'"
  by (auto simp: imap_open_def split: prod.splits sum.splits
      dest!: call_status_same call_checked_same intro: same_mail_trans)

lemma imap_search_unseen_same:
  "imap_search_unseen E w = (r, w') \<Longrightarrow> same_mail w w' \<and> (\<forall>ns. r = Inr (Some ns) \<longrightarrow> ns = unseen_nums (inbox w))"
  by (auto simp: imap_search_unseen_def ext_call_def same_mail_def split: prod.splits outcome.splits)

lemma fetch_unseen_idle:
  assumes "unseen_nums (inbox w) = []" and "fetch_unseen_messages E w = (ms, w')"
  shows "ms = [] \<and> same_mail w w'"
proof -
  obtain r1 w1 where o: "imap_open E w = (r1, w1)" by (cases "imap_open E w")
  obtain r2 w2 where s: "imap_search_unseen E w1 = (r2, w2)" by (cases "imap_search_unseen E w1")
  have m1: "same_mail w w1" using o by (rule imap_open_same)
  have m2: "same_mail w1 w2" and ns: "\<forall>ns. r2 = Inr (Some ns) \<longrightarrow> ns = []"
    using imap_search_unseen_same [OF s] m1 assms(1) by (auto simp: same_mail_def)
  have lo: "same_mail w2 (snd (call_status E w2))"
    by (cases "call_status E w2") (auto dest: call_status_same)
  show ?thesis
    using assms(2) o s m1 m2 ns lo
    unfolding fetch_unseen_messages_def
    by (auto split: sum.splits option.splits intro: same_mail_trans)
qed

lemma cycle_idle:
  assumes "unseen_nums (inbox w) = []"
  shows "inbox (cycle E getenv cfg w) = inbox w \<and> sent (cycle E getenv cfg w) = sent w"
proof -
  obtain ms w1 where f: "fetch_unseen_messages E w = (ms, w1)" by (cases "fetch_unseen_messages E w")
  with fetch_unseen_idle [OF assms f] show ?thesis
    by (simp add: cycle_def auto_reply_if_business_def same_mail_def)
qed

lemma run_cycles_idle:
  "unseen_nums (inbox w) = [] \<Longrightarrow> inbox (run_cycles E getenv cfg n w) = inbox w \<and> sent (run_cycles E getenv cfg n w) = sent w"
proof (induction n arbitrary: w)
  case 0
  then show ?case by simp
next
  case (Suc n)
  then show ?case using cycle_idle [OF Suc.prems, of E getenv cfg] by simp
qed


subsection \<open>What a cycle adds to the replies\<close>


lemma same_mail_sent: "same_mail w w' \<Longrightarrow> sent w' = sent w"
  by (simp add: same_mail_def)

lemma imap_fetch_sent: "imap_fetch E n w = (r, w') \<Longrightarrow> sent w' = sent w"
  by (auto simp: imap_fetch_def ext_call_def split: outcome.splits option.splits if_splits)

lemma imap_store_sent: "imap_store E n fs w = (r, w') \<Longrightarrow> sent w' = sent w"
  by (auto simp: imap_store_def ext_call_def split: outcome.splits)

lemma imap_store_snd_sent: "sent (snd (imap_store E n fs w)) = sent w"
  by (cases "imap_store E n fs w") (auto dest: imap_store_sent)

lemma fetch_each_sent: "fetch_each E nums acc w = (r, ms, w') \<Longrightarrow> sent w' = sent w"
proof (induction nums arbitrary: acc w)
  case Nil
  then show ?case by simp
next
  case (Cons num nums)
  obtain r1 w1 where f: "imap_fetch E num w = (r1, w1)" by (cases "imap_fetch E num w")
  have s1: "sent w1 = sent w" using f by (rule imap_fetch_sent)
  show ?case
  proof (cases r1)
    case (Inl e)
    then show ?thesis using Cons.prems f s1 by simp
  next
    case (Inr mo)
    show ?thesis
    proof (cases mo)
      case None
      then have "fetch_each E nums acc w1 = (r, ms, w')" using Cons.prems f Inr by simp
      then show ?thesis using Cons.IH s1 by simp
    next
      case (Some m)
      then have "fetch_each E nums (acc @ [parse_message E num m]) w1 = (r, ms, w')"
        using Cons.prems f Inr by simp
      then show ?thesis using Cons.IH s1 by simp
    qed
  qed
qed

lemma call_status_snd_sent: "sent (snd (call_status E w)) = sent w"
  by (cases "call_status E w") (auto dest: call_status_same simp: same_mail_def)

lemma fetch_unseen_messages_sent:
  assumes "fetch_unseen_messages E w = (ms, w')"
  shows "sent w' = sent w"
proof -
  obtain r1 w1 where o: "imap_open E w = (r1, w1)" by (cases "imap_open E w")
  obtain r2 w2 where s: "imap_search_unseen E w1 = (r2, w2)" by (cases "imap_search_unseen E w1")
  have s1: "sent w1 = sent w" using imap_open_same [OF o] by (simp add: same_mail_def)
  have s2: "sent w2 = sent w1" using imap_search_unseen_same [OF s] by (simp add: same_mail_def)
  have s3: "fetch_each E nums [] w2 = (r, m, w'') \<Longrightarrow> sent w'' = sent w2" for nums r m w''
    by (rule fetch_each_sent)
  show ?thesis
    using assms o s s1 s2 unfolding fetch_unseen_messages_def
    by (cases r1; cases r2)
      (auto split: option.splits sum.splits prod.splits simp: call_status_snd_sent dest!: s3)
qed

lemma smtp_exit_sent: "smtp_exit E r w = (r', w') \<Longrightarrow> sent w' = sent w"
  by (auto simp: smtp_exit_def ext_call_def split: outcome.splits exn.splits)

lemma smtp_session_sent:
  "smtp_session E msg num w = (r, w') \<Longrightarrow> sent w' = sent w \<or> sent w' = sent w @ [(num, msg)]"
  unfolding smtp_session_def smtp_transaction_def
  by (auto split: prod.splits sum.splits dest!: call_checked_same smtp_exit_sent simp: same_mail_def)

lemma send_email_smtp_sent:
  "send_email_smtp E tm subj body fa tos irt num w = (r, w') \<Longrightarrow>
   sent w' = sent w \<or> (\<exists>om. sent w' = sent w @ [(num, om)] \<and> out_to om = py_join '', '' tos \<and> out_from om = fa)"
  unfolding send_email_smtp_def Let_def
  by (auto split: prod.splits sum.splits if_splits dest!: smtp_session_sent)

lemma process_message_sent:
  "process_message E g tm u pfx tmpl mi w = (r, w') \<Longrightarrow>
   sent w' = sent w \<or> (\<exists>x. sent w' = sent w @ [x] \<and> answers u mi x)"
  unfolding process_message_def Let_def
  by (cases "str_or_empty (mi_body mi)"; cases "Option.bind (str_or_empty (mi_body mi)) extract_business_email")
    (auto split: prod.splits sum.splits if_splits bool.splits
      dest!: imap_store_sent send_email_smtp_sent simp: imap_store_snd_sent answers_def)

subsection \<open>Invariants of a run\<close>


lemma mail_le_content:
  "list_all2 mail_le mb mb' \<Longrightarrow> map_option (\<lambda>m. f (content m)) (map_of mb' n) = map_option (\<lambda>m. f (content m)) (map_of mb n)"
  by (induction mb mb' rule: list_all2_induct) (auto simp: mail_le_def)

lemma world_le_content:
  "world_le w w' \<Longrightarrow> map_option (\<lambda>m. f (content m)) (map_of (inbox w') n) = map_option (\<lambda>m. f (content m)) (map_of (inbox w) n)"
  unfolding world_le_def by (blast intro: mail_le_content)

lemma world_le_from_inbox: "world_le w w' \<Longrightarrow> from_inbox (inbox w') mi \<longleftrightarrow> from_inbox (inbox w) mi"
  unfolding from_inbox_def by (simp add: world_le_content)

lemma world_le_reply_ok: "world_le w w' \<Longrightarrow> reply_ok u (inbox w') r \<longleftrightarrow> reply_ok u (inbox w) r"
  unfolding reply_ok_def
  by (simp only: world_le_content [of w w'
      "\<lambda>c. map_option extract_business_email (str_or_empty (get_text_from_message c))"])

lemma imap_fetch_Some: "imap_fetch E n w = (Inr (Some m), w') \<Longrightarrow> map_of (inbox w) n = Some m"
  by (auto simp: imap_fetch_def ext_call_def split: outcome.splits option.splits if_splits)

lemma fetch_each_from_inbox:
  "fetch_each E nums acc w = (r, ms, w') \<Longrightarrow> list_all (from_inbox (inbox w)) acc \<Longrightarrow>
   list_all (from_inbox (inbox w)) ms"
proof (induction nums arbitrary: acc w)
  case Nil
  then show ?case by simp
next
  case (Cons num nums)
  obtain r1 w1 where f: "imap_fetch E num w = (r1, w1)" by (cases "imap_fetch E num w")
  have le: "world_le w w1" using f by (rule imap_fetch_le)
  have acc1: "list_all (from_inbox (inbox w1)) acc"
    using Cons.prems(2) world_le_from_inbox [OF le] by (simp add: list_all_iff)
  show ?case
  proof (cases r1)
    case (Inl e)
    then show ?thesis using Cons.prems f by simp
  next
    case (Inr mo)
    show ?thesis
    proof (cases mo)
      case None
      then have "fetch_each E nums acc w1 = (r, ms, w')" using Cons.prems f Inr by simp
      from Cons.IH [OF this acc1] show ?thesis using world_le_from_inbox [OF le] by (simp add: list_all_iff)
    next
      case (Some m)
      then have e: "fetch_each E nums (acc @ [parse_message E num m]) w1 = (r, ms, w')"
        using Cons.prems f Inr by simp
      have "map_of (inbox w) num = Some m" using f Inr Some by (simp add: imap_fetch_Some)
      then have "from_inbox (inbox w) (parse_message E num m)"
        by (simp add: from_inbox_def parse_message_def Let_def split: prod.splits)
      then have "list_all (from_inbox (inbox w1)) (acc @ [parse_message E num m])"
        using acc1 world_le_from_inbox [OF le] by simp
      from Cons.IH [OF e this] show ?thesis using world_le_from_inbox [OF le] by (simp add: list_all_iff)
    qed
  qed
qed

lemma fetch_unseen_messages_from_inbox:
  assumes "fetch_unseen_messages E w = (ms, w')"
  shows "list_all (from_inbox (inbox w)) ms"
proof -
  obtain r1 w1 where o: "imap_open E w = (r1, w1)" by (cases "imap_open E w")
  obtain r2 w2 where s: "imap_search_unseen E w1 = (r2, w2)" by (cases "imap_search_unseen E w1")
  have i2: "inbox w2 = inbox w"
    using imap_open_same [OF o] imap_search_unseen_same [OF s] by (simp add: same_mail_def)
  have e: "fetch_each E nums [] w2 = (r, m, w'') \<Longrightarrow> list_all (from_inbox (inbox w)) m" for nums r m w''
    using fetch_each_from_inbox [of E nums "[]" w2 r m w''] i2 by simp
  show ?thesis
    using assms o s unfolding fetch_unseen_messages_def
    by (cases r1; cases r2) (auto split: option.splits sum.splits prod.splits dest!: e)
qed

lemma process_all_sent:
  "process_all E g tm u pfx tmpl ms w = (r, w') \<Longrightarrow>
   \<exists>new. sent w' = sent w @ new \<and> list_all (\<lambda>x. \<exists>mi \<in> set ms. answers u mi x) new"
proof (induction ms arbitrary: w)
  case Nil
  then show ?case by simp
next
  case (Cons mi ms)
  obtain r1 w1 where p: "process_message E g tm u pfx tmpl mi w = (r1, w1)"
    by (cases "process_message E g tm u pfx tmpl mi w")
  obtain new1 where n1: "sent w1 = sent w @ new1" "list_all (answers u mi) new1"
    using process_message_sent [OF p] by (metis append_Nil2 list.pred_inject)
  show ?case
  proof (cases r1)
    case (Inl e)
    then show ?thesis using Cons.prems p n1 by (auto simp: list_all_iff)
  next
    case (Inr x)
    then have "process_all E g tm u pfx tmpl ms w1 = (r, w')" using Cons.prems p by simp
    from Cons.IH [OF this] obtain new2 where "sent w' = sent w1 @ new2"
        "list_all (\<lambda>x. \<exists>mi \<in> set ms. answers u mi x) new2" by blast
    then show ?thesis using n1 by (auto simp: list_all_iff)
  qed
qed

lemma cycle_sent:
  "\<exists>ms new. list_all (from_inbox (inbox w)) ms \<and> sent (cycle E g cfg w) = sent w @ new \<and>
     list_all (\<lambda>x. \<exists>mi \<in> set ms. answers (or_empty (cfg_username cfg)) mi x) new"
proof -
  let ?u = "or_empty (cfg_username cfg)"
  obtain ms w1 where f: "fetch_unseen_messages E w = (ms, w1)" by (cases "fetch_unseen_messages E w")
  have fi: "list_all (from_inbox (inbox w)) ms" using f by (rule fetch_unseen_messages_from_inbox)
  have s1: "sent w1 = sent w" using f by (rule fetch_unseen_messages_sent)
  obtain r2 w2 where o: "imap_open E w1 = (r2, w2)" by (cases "imap_open E w1")
  have s2: "sent w2 = sent w1" using imap_open_same [OF o] by (simp add: same_mail_def)
  obtain r3 w3 where p: "process_all E g (cfg_test_mode cfg) ?u REPLY_SUBJECT_PREFIX REPLY_BODY_TEMPLATE ms w2 = (r3, w3)"
    by (cases "process_all E g (cfg_test_mode cfg) ?u REPLY_SUBJECT_PREFIX REPLY_BODY_TEMPLATE ms w2")
  obtain new where n: "sent w3 = sent w2 @ new" "list_all (\<lambda>x. \<exists>mi \<in> set ms. answers ?u mi x) new"
    using process_all_sent [OF p] by blast
  have "sent (cycle E g cfg w) = sent w \<or> sent (cycle E g cfg w) = sent w @ new"
    using f o p s1 s2 n(1)
    by (cases r2; cases r3) (auto simp: cycle_def auto_reply_if_business_def call_status_snd_sent)
  then show ?thesis using fi n(2) by (metis append_Nil2 list.pred_inject(1))
qed

lemma answers_reply_ok: "answers u mi x \<Longrightarrow> from_inbox mb mi \<Longrightarrow> reply_ok u mb x"
  by (auto simp: answers_def from_inbox_def reply_ok_def split: option.splits)

lemma reply_ok_deliver:
  "reply_ok u mb r \<Longrightarrow> n \<notin> fst ` set mb \<Longrightarrow> reply_ok u (mb @ [(n, m)]) r"
  by (auto simp: reply_ok_def map_of_append split: option.splits)

text \<open>C12: every reply the program ever sends answers a message of the INBOX, goes to the
  address \<open>extract_business_email\<close> finds in that message's body text, is not addressed
  to the operator's own account and is sent from it.\<close>

theorem replies_answer_extracted_addresses:
  assumes "reach E getenv cfg w0 w"
    and "list_all (reply_ok (or_empty (cfg_username cfg)) (inbox w0)) (sent w0)"
  shows "list_all (reply_ok (or_empty (cfg_username cfg)) (inbox w)) (sent w)"
  using assms
proof (induction rule: reach.induct)
  case init
  then show ?case .
next
  case (step_cycle w)
  let ?u = "or_empty (cfg_username cfg)"
  obtain ms new where c: "list_all (from_inbox (inbox w)) ms" "sent (cycle E getenv cfg w) = sent w @ new"
      "list_all (\<lambda>x. \<exists>mi \<in> set ms. answers ?u mi x) new"
    using cycle_sent by blast
  have "list_all (reply_ok ?u (inbox w)) (sent w @ new)"
    using step_cycle.IH step_cycle.prems c(1,3) answers_reply_ok by (fastforce simp: list_all_iff)
  then show ?case
    using c(2) world_le_reply_ok [OF cycle_le] by (simp add: list_all_iff)
next
  case (deliver w n m)
  then show ?case using reply_ok_deliver by (simp add: list_all_iff)
qed

text \<open>C9: along any run (cycles and deliveries of new mail) the messages present at the
  start stay, in order, with their headers and content, and never lose a flag, and the
  replies sent so far are never retracted.\<close>

theorem reach_keeps_mail_and_replies:
  assumes "reach E getenv cfg w0 w"
  shows "list_all2 mail_le (inbox w0) (take (length (inbox w0)) (inbox w)) \<and> prefix (sent w0) (sent w)"
  using assms
proof (induction rule: reach.induct)
  case init
  show ?case by (simp add: list_all2_refl mail_le_def)
next
  case (step_cycle w)
  have le: "list_all2 mail_le (inbox w) (inbox (cycle E getenv cfg w))" "prefix (sent w) (sent (cycle E getenv cfg w))"
    using cycle_le [of w E getenv cfg] by (simp_all add: world_le_def)
  have "length (inbox w0) \<le> length (inbox w)"
    using step_cycle.IH list_all2_lengthD by fastforce
  then have "list_all2 mail_le (take (length (inbox w0)) (inbox w)) (take (length (inbox w0)) (inbox (cycle E getenv cfg w)))"
    using le(1) by (simp add: list_all2_takeI)
  then show ?case
    using step_cycle.IH le(2) by (blast intro: mail_le_trans prefix_order.trans)
next
  case (deliver w n m)
  have "length (inbox w0) \<le> length (inbox w)"
    using deliver.IH list_all2_lengthD by fastforce
  then show ?case using deliver.IH by simp
qed


subsection \<open>No message is answered twice\<close>


lemma mail_le_seen: "list_all2 mail_le mb mb' \<Longrightarrow> seen_in mb n \<Longrightarrow> seen_in mb' n"
  by (induction mb mb' rule: list_all2_induct) (auto simp: mail_le_def seen_in_def split: if_splits)

lemma world_le_seen: "world_le w w' \<Longrightarrow> seen_in (inbox w) n \<Longrightarrow> seen_in (inbox w') n"
  unfolding world_le_def by (blast intro: mail_le_seen)

lemma mail_le_ids: "list_all2 mail_le mb mb' \<Longrightarrow> map fst mb' = map fst mb"
  by (induction mb mb' rule: list_all2_induct) (auto simp: mail_le_def)

lemma world_le_ids: "world_le w w' \<Longrightarrow> map fst (inbox w') = map fst (inbox w)"
  unfolding world_le_def by (blast intro: mail_le_ids)

lemma map_of_add_flags:
  "map_of (add_flags n fs mb) k = map_option (\<lambda>m. if k = n then m\<lparr>flags := flags m \<union> fs\<rparr> else m) (map_of mb k)"
  by (induction mb) (auto simp: add_flags_def)

lemma imap_fetch_seen:
  "imap_fetch E n w = (Inr (Some m), w') \<Longrightarrow> fetch_sets_seen E \<Longrightarrow> seen_in (inbox w') n"
  by (auto simp: imap_fetch_def ext_call_def seen_in_def map_of_add_flags
      split: outcome.splits option.splits if_splits)

lemma unseen_not_seen:
  assumes "n \<in> set (unseen_nums mb)" and "distinct (map fst mb)"
  shows "\<not> seen_in mb n"
proof -
  obtain m where m: "(n, m) \<in> set mb" "Seen \<notin> flags m" using assms(1) by (auto simp: unseen_nums_def)
  then have "map_of mb n = Some m" using assms(2) by (simp add: map_of_is_SomeI)
  then show ?thesis using m(2) by (simp add: seen_in_def)
qed

lemma distinct_unseen_nums: "distinct (map fst mb) \<Longrightarrow> distinct (unseen_nums mb)"
  by (induction mb) (auto simp: unseen_nums_def)

lemma fetch_each_nums:
  assumes "fetch_each E nums acc w = (r, ms, w')"
    and "distinct (map mi_num acc @ nums)"
    and "fetch_sets_seen E \<longrightarrow> list_all (\<lambda>mi. seen_in (inbox w) (mi_num mi)) acc"
  shows "distinct (map mi_num ms) \<and> set (map mi_num ms) \<subseteq> set (map mi_num acc) \<union> set nums \<and>
    (fetch_sets_seen E \<longrightarrow> list_all (\<lambda>mi. seen_in (inbox w') (mi_num mi)) ms)"
  using assms
proof (induction nums arbitrary: acc w)
  case Nil
  then show ?case by simp
next
  case (Cons num nums)
  obtain r1 w1 where f: "imap_fetch E num w = (r1, w1)" by (cases "imap_fetch E num w")
  have le: "world_le w w1" using f by (rule imap_fetch_le)
  have acc1: "fetch_sets_seen E \<longrightarrow> list_all (\<lambda>mi. seen_in (inbox w1) (mi_num mi)) acc"
    using Cons.prems(3) world_le_seen [OF le] by (auto simp: list_all_iff)
  show ?case
  proof (cases r1)
    case (Inl e)
    then show ?thesis using Cons.prems f acc1 by auto
  next
    case (Inr mo)
    show ?thesis
    proof (cases mo)
      case None
      then have e: "fetch_each E nums acc w1 = (r, ms, w')" using Cons.prems f Inr by simp
      have "distinct (map mi_num acc @ nums)" using Cons.prems(2) by simp
      from Cons.IH [OF e this acc1] show ?thesis by auto
    next
      case (Some m)
      let ?acc = "acc @ [parse_message E num m]"
      have e: "fetch_each E nums ?acc w1 = (r, ms, w')" using Cons.prems f Inr Some by simp
      have n: "mi_num (parse_message E num m) = num" by (simp add: parse_message_def Let_def split: prod.splits)
      have d: "distinct (map mi_num ?acc @ nums)" using Cons.prems(2) n by auto
      have "fetch_sets_seen E \<longrightarrow> list_all (\<lambda>mi. seen_in (inbox w1) (mi_num mi)) ?acc"
        using acc1 imap_fetch_seen [of E num w m w1] f Inr Some n by simp
      from Cons.IH [OF e d this] show ?thesis using n by auto
    qed
  qed
qed


lemma world_le_seen_all:
  "world_le w w' \<Longrightarrow> list_all (\<lambda>mi. seen_in (inbox w) (mi_num mi)) ms \<Longrightarrow>
   list_all (\<lambda>mi. seen_in (inbox w') (mi_num mi)) ms"
  using world_le_seen by (auto simp: list_all_iff)

lemma fetch_unseen_messages_nums:
  assumes "fetch_unseen_messages E w = (ms, w')" and "distinct (map fst (inbox w))"
  shows "distinct (map mi_num ms) \<and> set (map mi_num ms) \<subseteq> set (unseen_nums (inbox w)) \<and>
    (fetch_sets_seen E \<longrightarrow> list_all (\<lambda>mi. seen_in (inbox w') (mi_num mi)) ms)"
proof -
  obtain r1 w1 where o: "imap_open E w = (r1, w1)" by (cases "imap_open E w")
  obtain r2 w2 where s: "imap_search_unseen E w1 = (r2, w2)" by (cases "imap_search_unseen E w1")
  have i2: "inbox w2 = inbox w" and ns: "\<forall>ns. r2 = Inr (Some ns) \<longrightarrow> ns = unseen_nums (inbox w)"
    using imap_open_same [OF o] imap_search_unseen_same [OF s] by (auto simp: same_mail_def)
  have du: "distinct (unseen_nums (inbox w))" using assms(2) by (rule distinct_unseen_nums)
  have e: "fetch_each E (unseen_nums (inbox w)) [] w2 = (r, m, w'') \<Longrightarrow>
      distinct (map mi_num m) \<and> set (map mi_num m) \<subseteq> set (unseen_nums (inbox w)) \<and>
      (fetch_sets_seen E \<longrightarrow> list_all (\<lambda>mi. seen_in (inbox (snd (call_status E w''))) (mi_num mi)) m)
      \<and> (fetch_sets_seen E \<longrightarrow> list_all (\<lambda>mi. seen_in (inbox w'') (mi_num mi)) m)" for r m w''
    using fetch_each_nums [of E "unseen_nums (inbox w)" "[]" w2 r m w''] du
      world_le_seen_all [OF call_status_snd_le] by auto
  show ?thesis
    using assms(1) o s ns unfolding fetch_unseen_messages_def
    by (cases r1; cases r2) (auto split: option.splits sum.splits prod.splits dest!: e)
qed

lemma process_all_sent_nums:
  "process_all E g tm u pfx tmpl ms w = (r, w') \<Longrightarrow> distinct (map mi_num ms) \<Longrightarrow>
   \<exists>new. sent w' = sent w @ new \<and> distinct (map fst new) \<and> set (map fst new) \<subseteq> set (map mi_num ms)"
proof (induction ms arbitrary: w)
  case Nil
  then show ?case by simp
next
  case (Cons mi ms)
  obtain r1 w1 where p: "process_message E g tm u pfx tmpl mi w = (r1, w1)"
    by (cases "process_message E g tm u pfx tmpl mi w")
  obtain new1 where n1: "sent w1 = sent w @ new1" "set (map fst new1) \<subseteq> {mi_num mi}" "length new1 \<le> 1"
    using process_message_sent [OF p] by (auto simp: answers_def)
  show ?case
  proof (cases r1)
    case (Inl e)
    then show ?thesis using Cons.prems p n1
      by (cases new1) auto
  next
    case (Inr x)
    then have "process_all E g tm u pfx tmpl ms w1 = (r, w')" using Cons.prems p by simp
    from Cons.IH [OF this] Cons.prems(2) obtain new2 where n2: "sent w' = sent w1 @ new2"
        "distinct (map fst new2)" "set (map fst new2) \<subseteq> set (map mi_num ms)" by auto
    have "mi_num mi \<notin> set (map mi_num ms)" using Cons.prems(2) by simp
    then show ?thesis using n1 n2 by (cases new1) auto
  qed
qed


lemma cycle_sent_nums:
  assumes "distinct (map fst (inbox w))"
  shows "\<exists>new. sent (cycle E g cfg w) = sent w @ new \<and> distinct (map fst new) \<and>
    set (map fst new) \<subseteq> set (unseen_nums (inbox w)) \<and>
    (fetch_sets_seen E \<longrightarrow> (\<forall>n \<in> set (map fst new). seen_in (inbox (cycle E g cfg w)) n))"
proof -
  let ?u = "or_empty (cfg_username cfg)"
  obtain ms w1 where f: "fetch_unseen_messages E w = (ms, w1)" by (cases "fetch_unseen_messages E w")
  have F: "distinct (map mi_num ms) \<and> set (map mi_num ms) \<subseteq> set (unseen_nums (inbox w)) \<and>
      (fetch_sets_seen E \<longrightarrow> list_all (\<lambda>mi. seen_in (inbox w1) (mi_num mi)) ms)"
    using fetch_unseen_messages_nums [OF f assms] .
  have s1: "sent w1 = sent w" using f by (rule fetch_unseen_messages_sent)
  show ?thesis
  proof (cases "ms = []")
    case True
    then have "cycle E g cfg w = w1" using f by (simp add: cycle_def auto_reply_if_business_def)
    then show ?thesis using s1 by (intro exI [of _ "[]"]) simp
  next
    case False
    obtain r2 w2 where o: "imap_open E w1 = (r2, w2)" by (cases "imap_open E w1")
    have s2: "sent w2 = sent w1" using imap_open_same [OF o] by (simp add: same_mail_def)
    have le2: "world_le w1 w2" using o by (rule imap_open_le)
    show ?thesis
    proof (cases r2)
      case (Inl e)
      then have "cycle E g cfg w = w2" using f False o by (simp add: cycle_def auto_reply_if_business_def)
      then show ?thesis using s1 s2 by (intro exI [of _ "[]"]) simp
    next
      case (Inr x)
      obtain r3 w3 where p: "process_all E g (cfg_test_mode cfg) ?u REPLY_SUBJECT_PREFIX REPLY_BODY_TEMPLATE ms w2 = (r3, w3)"
        by (cases "process_all E g (cfg_test_mode cfg) ?u REPLY_SUBJECT_PREFIX REPLY_BODY_TEMPLATE ms w2")
      obtain new where n: "sent w3 = sent w2 @ new" "distinct (map fst new)" "set (map fst new) \<subseteq> set (map mi_num ms)"
        using process_all_sent_nums [OF p] F by blast
      have le3: "world_le w2 w3" using p by (rule process_all_le)
      have c: "cycle E g cfg w = w3 \<or> cycle E g cfg w = snd (call_status E w3)"
        using f False o Inr p by (cases r3) (simp_all add: cycle_def auto_reply_if_business_def)
      have sc: "sent (cycle E g cfg w) = sent w3" using c call_status_snd_sent by auto
      have lec: "world_le w1 (cycle E g cfg w)"
        using c le2 le3 call_status_snd_le by (auto intro: world_le_trans)
      have "fetch_sets_seen E \<longrightarrow> (\<forall>n \<in> set (map fst new). seen_in (inbox (cycle E g cfg w)) n)"
        using F n(3) world_le_seen [OF lec] by (auto simp: list_all_iff)
      then show ?thesis using n F s1 s2 sc by (intro exI [of _ new]) auto
    qed
  qed
qed

lemma seen_in_append: "seen_in mb k \<Longrightarrow> seen_in (mb @ [(n, m)]) k"
  by (auto simp: seen_in_def map_of_append split: option.splits)

lemma reach_no_dup_inv:
  assumes "reach E getenv cfg w0 w" and "fetch_sets_seen E"
    and "distinct (map fst (inbox w0))" and "sent w0 = []"
  shows "distinct (map fst (inbox w)) \<and> distinct (map fst (sent w)) \<and>
    (\<forall>n \<in> set (map fst (sent w)). seen_in (inbox w) n)"
  using assms(1)
proof (induction rule: reach.induct)
  case init
  then show ?case using assms(3,4) by simp
next
  case (step_cycle w)
  let ?w' = "cycle E getenv cfg w"
  from step_cycle.IH have D: "distinct (map fst (inbox w))" and DS: "distinct (map fst (sent w))"
      and S: "\<forall>n \<in> set (map fst (sent w)). seen_in (inbox w) n" by auto
  obtain new where n: "sent ?w' = sent w @ new" "distinct (map fst new)"
      "set (map fst new) \<subseteq> set (unseen_nums (inbox w))"
      "\<forall>n \<in> set (map fst new). seen_in (inbox ?w') n"
    using cycle_sent_nums [OF D, of E getenv cfg] assms(2) by blast
  have le: "world_le w ?w'" by (rule cycle_le)
  have disj: "set (map fst (sent w)) \<inter> set (map fst new) = {}"
    using n(3) S unseen_not_seen [OF _ D] by blast
  show ?case
    using D DS S n disj world_le_ids [OF le] world_le_seen [OF le] by auto
next
  case (deliver w n m)
  then show ?case by (auto intro: seen_in_append)
qed

text \<open>C13: with RFC 3501 fetch semantics no message is ever answered twice, along any run
  that starts without replies and with distinct sequence numbers; this answers the open
  question of spec section 9 for a real IMAP server (compare \<open>duplicate_reply_after_store_failure\<close>).\<close>

theorem no_duplicate_replies:
  assumes "reach E getenv cfg w0 w" and "fetch_sets_seen E"
    and "distinct (map fst (inbox w0))" and "sent w0 = []"
  shows "distinct (map fst (sent w))"
  using reach_no_dup_inv [OF assms] by blast


subsection \<open>Bounds on the calls of a cycle\<close>


lemma ext_call_calls: "ext_call E w = (r, w') \<Longrightarrow> calls w' = Suc (calls w)"
  by (auto simp: ext_call_def)

lemma call_status_calls: "call_status E w = (r, w') \<Longrightarrow> calls w' = Suc (calls w)"
  by (auto simp: call_status_def split: prod.splits outcome.splits dest: ext_call_calls)

lemma call_status_snd_calls: "calls (snd (call_status E w)) = Suc (calls w)"
  by (cases "call_status E w") (auto dest: call_status_calls)

lemma call_checked_calls: "call_checked err E w = (r, w') \<Longrightarrow> calls w' = Suc (calls w)"
  by (auto simp: call_checked_def split: prod.splits outcome.splits dest: ext_call_calls)

lemma imap_fetch_calls: "imap_fetch E n w = (r, w') \<Longrightarrow> calls w' = Suc (calls w)"
  by (auto simp: imap_fetch_def ext_call_def split: outcome.splits option.splits if_splits)

lemma imap_store_calls: "imap_store E n fs w = (r, w') \<Longrightarrow> calls w' = Suc (calls w)"
  by (auto simp: imap_store_def ext_call_def split: outcome.splits)

lemma imap_store_snd_calls: "calls (snd (imap_store E n fs w)) = Suc (calls w)"
  by (cases "imap_store E n fs w") (auto dest: imap_store_calls)

lemma imap_search_unseen_calls: "imap_search_unseen E w = (r, w') \<Longrightarrow> calls w' = Suc (calls w)"
  by (auto simp: imap_search_unseen_def ext_call_def split: outcome.splits)

lemma imap_open_calls: "imap_open E w = (r, w') \<Longrightarrow> calls w' \<le> calls w + 3"
  by (auto simp: imap_open_def split: prod.splits sum.splits
      dest!: call_status_calls call_checked_calls)

lemma fetch_each_calls:
  "fetch_each E nums acc w = (r, ms, w') \<Longrightarrow>
   calls w' \<le> calls w + length nums \<and> length ms \<le> length acc + length nums"
proof (induction nums arbitrary: acc w)
  case Nil
  then show ?case by simp
next
  case (Cons num nums)
  obtain r1 w1 where f: "imap_fetch E num w = (r1, w1)" by (cases "imap_fetch E num w")
  have c1: "calls w1 = Suc (calls w)" using f by (rule imap_fetch_calls)
  show ?case
  proof (cases r1)
    case (Inl e)
    then show ?thesis using Cons.prems f c1 by auto
  next
    case (Inr mo)
    show ?thesis
    proof (cases mo)
      case None
      then have "fetch_each E nums acc w1 = (r, ms, w')" using Cons.prems f Inr by simp
      from Cons.IH [OF this] show ?thesis using c1 by simp
    next
      case (Some m)
      then have "fetch_each E nums (acc @ [parse_message E num m]) w1 = (r, ms, w')"
        using Cons.prems f Inr by simp
      from Cons.IH [OF this] show ?thesis using c1 by simp
    qed
  qed
qed

lemma fetch_unseen_messages_calls:
  assumes "fetch_unseen_messages E w = (ms, w')"
  shows "calls w' \<le> calls w + 5 + length (unseen_nums (inbox w)) \<and> length ms \<le> length (unseen_nums (inbox w))"
proof -
  obtain r1 w1 where o: "imap_open E w = (r1, w1)" by (cases "imap_open E w")
  obtain r2 w2 where s: "imap_search_unseen E w1 = (r2, w2)" by (cases "imap_search_unseen E w1")
  have c1: "calls w1 \<le> calls w + 3" using o by (rule imap_open_calls)
  have c2: "calls w2 = Suc (calls w1)" using s by (rule imap_search_unseen_calls)
  have ns: "\<forall>ns. r2 = Inr (Some ns) \<longrightarrow> ns = unseen_nums (inbox w)"
    using imap_open_same [OF o] imap_search_unseen_same [OF s] by (auto simp: same_mail_def)
  have e: "fetch_each E (unseen_nums (inbox w)) [] w2 = (r, m, w'') \<Longrightarrow>
      calls w'' \<le> calls w2 + length (unseen_nums (inbox w)) \<and> length m \<le> length (unseen_nums (inbox w))"
    for r m w'' using fetch_each_calls [of E "unseen_nums (inbox w)" "[]" w2 r m w''] by simp
  show ?thesis
    using assms o s ns c1 c2 unfolding fetch_unseen_messages_def
    by (cases r1; cases r2) (auto split: option.splits sum.splits prod.splits dest!: e
        simp: call_status_snd_calls)
qed

lemma smtp_exit_calls: "smtp_exit E r w = (r', w') \<Longrightarrow> calls w' = Suc (calls w)"
  by (auto simp: smtp_exit_def ext_call_def split: outcome.splits exn.splits)

lemma smtp_transaction_calls: "smtp_transaction E msg num w = (r, w') \<Longrightarrow> calls w' \<le> calls w + 2"
  by (auto simp: smtp_transaction_def split: prod.splits sum.splits dest!: call_checked_calls)

lemma smtp_session_calls: "smtp_session E msg num w = (r, w') \<Longrightarrow> calls w' \<le> calls w + 4"
  by (auto simp: smtp_session_def split: prod.splits sum.splits
      dest!: call_checked_calls smtp_transaction_calls smtp_exit_calls)

lemma send_email_smtp_calls:
  "send_email_smtp E tm subj body fa tos irt num w = (r, w') \<Longrightarrow> calls w' \<le> calls w + 4"
  unfolding send_email_smtp_def Let_def
  by (auto split: prod.splits sum.splits if_splits dest!: smtp_session_calls)

lemma process_message_calls:
  "process_message E g tm u pfx tmpl mi w = (r, w') \<Longrightarrow> calls w' \<le> calls w + 6"
  unfolding process_message_def Let_def
  by (auto split: prod.splits sum.splits if_splits bool.splits option.splits
      dest!: imap_store_calls send_email_smtp_calls simp: imap_store_snd_calls)

lemma process_all_calls:
  "process_all E g tm u pfx tmpl ms w = (r, w') \<Longrightarrow> calls w' \<le> calls w + 6 * length ms"
proof (induction ms arbitrary: w)
  case Nil
  then show ?case by simp
next
  case (Cons mi ms)
  then show ?case
    by (auto split: prod.splits sum.splits dest!: process_message_calls) fastforce+
qed

lemma cycle_calls_le:
  "calls (cycle E getenv cfg w) \<le> calls w + 9 + 7 * length (unseen_nums (inbox w))"
proof -
  let ?u = "or_empty (cfg_username cfg)" and ?k = "length (unseen_nums (inbox w))"
  obtain ms w1 where f: "fetch_unseen_messages E w = (ms, w1)" by (cases "fetch_unseen_messages E w")
  have c1: "calls w1 \<le> calls w + 5 + ?k" and l: "length ms \<le> ?k"
    using fetch_unseen_messages_calls [OF f] by auto
  show ?thesis
  proof (cases "ms = []")
    case True
    then have "cycle E getenv cfg w = w1" using f by (simp add: cycle_def auto_reply_if_business_def)
    then show ?thesis using c1 by simp
  next
    case False
    obtain r2 w2 where o: "imap_open E w1 = (r2, w2)" by (cases "imap_open E w1")
    have c2: "calls w2 \<le> calls w1 + 3" using o by (rule imap_open_calls)
    show ?thesis
    proof (cases r2)
      case (Inl e)
      then have "cycle E getenv cfg w = w2" using f False o by (simp add: cycle_def auto_reply_if_business_def)
      then show ?thesis using c1 c2 by simp
    next
      case (Inr x)
      obtain r3 w3 where p: "process_all E getenv (cfg_test_mode cfg) ?u REPLY_SUBJECT_PREFIX REPLY_BODY_TEMPLATE ms w2 = (r3, w3)"
        by (cases "process_all E getenv (cfg_test_mode cfg) ?u REPLY_SUBJECT_PREFIX REPLY_BODY_TEMPLATE ms w2")
      have c3: "calls w3 \<le> calls w2 + 6 * length ms" using p by (rule process_all_calls)
      have "calls (cycle E getenv cfg w) \<le> Suc (calls w3)"
        using f False o Inr p
        by (cases r3) (simp_all add: cycle_def auto_reply_if_business_def call_status_snd_calls)
      then show ?thesis using c1 c2 c3 l by simp
    qed
  qed
qed

lemma length_unseen_nums: "length (unseen_nums mb) \<le> length mb"
  by (simp add: unseen_nums_def)

lemma cycle_inbox_length: "length (inbox (cycle E getenv cfg w)) = length (inbox w)"
  using cycle_le [of w E getenv cfg] unfolding world_le_def by (metis list_all2_lengthD)

text \<open>C16: a cycle makes at most \<open>9 + 7 k\<close> calls to the servers, \<open>k\<close> the number of unseen
  messages at its start: no call is retried, whatever the servers answer.\<close>

theorem cycle_calls_bound:
  "calls (cycle E getenv cfg w) \<le> calls w + 9 + 7 * length (unseen_nums (inbox w))"
  by (rule cycle_calls_le)

text \<open>C20: a run of \<open>n\<close> cycles makes at most \<open>n (9 + 7 m)\<close> calls to the servers, \<open>m\<close> the
  number of messages in the INBOX at its start: the cycles never add messages, so the
  bound of one cycle holds for each of them.\<close>

theorem run_calls_bound:
  "calls (run_cycles E getenv cfg n w) \<le> calls w + n * (9 + 7 * length (inbox w))"
proof (induction n arbitrary: w)
  case 0
  then show ?case by simp
next
  case (Suc n)
  have "calls (cycle E getenv cfg w) \<le> calls w + 9 + 7 * length (inbox w)"
    using cycle_calls_le [of E getenv cfg w] length_unseen_nums [of "inbox w"] by linarith
  then show ?case
    using Suc.IH [of "cycle E getenv cfg w"] cycle_inbox_length [of E getenv cfg w] by simp
qed

end
