(* ===== verification/Reliable.thy ===== *)
theory Reliable
  imports Cycle
begin

text \<open>
  The cycle when every server answers \<open>OK\<close> (an oracle constantly \<open>OK\<close>): the operations
  of \<open>Mailbox\<close>, \<open>Reply\<close> and \<open>Cycle\<close> then have one outcome each, the fetch returns every
  unseen message parsed (\<open>fetched\<close>), \<open>process_message\<close> flags the message it handles and
  sends the reply it owes (\<open>reply_due\<close>), and a cycle leaves no unseen message. The
  exceptions that remain are the \<open>TypeError\<close> of a non-empty \<open>bytes\<close> body and the
  \<open>ValueError\<close> of a header with a line break, which \<open>processable\<close> excludes; a message
  that raises one of them blocks every later message for ever (\<open>blocking_message_starves\<close>).
\<close>

text \<open>\<open>processable mi\<close>: handling \<open>mi\<close> raises nothing: its body is a \<open>str\<close> or empty, and
  the headers of a reply to it can be assigned (no line break in the subject or the
  \<open>In-Reply-To\<close> value). \<open>reply_due E u mi\<close>: the reply lines
  239-305 owe to \<open>mi\<close>, as its number and the address it goes to. \<open>fetched E mb\<close>: the
  unseen messages of \<open>mb\<close>, parsed, in INBOX order. \<open>addressees rs\<close>: the numbers and
  recipients of the replies \<open>rs\<close>.\<close>

definition processable :: "msg_info \<Rightarrow> bool" where
  "processable mi \<longleftrightarrow>
     str_or_empty (mi_body mi) \<noteq> None \<and> header_ok (REPLY_SUBJECT_PREFIX @ mi_subject mi) \<and>
     (truthy (msg_get (mi_raw mi) ''Message-ID'') \<longrightarrow> header_ok (or_empty (msg_get (mi_raw mi) ''Message-ID'')))"

definition reply_due :: "environment \<Rightarrow> string \<Rightarrow> msg_info \<Rightarrow> (nat \<times> string) list" where
  "reply_due E username mi =
     (case Option.bind (str_or_empty (mi_body mi)) extract_business_email of
        None \<Rightarrow> []
      | Some a \<Rightarrow>
          if \<not> is_auto_generated (env_parseaddr E) (mi_raw mi) \<and> a \<noteq> [] \<and> email_re_matches a \<and>
             py_lower a \<noteq> py_lower username
          then [(mi_num mi, a)] else [])"

definition fetched :: "environment \<Rightarrow> (nat \<times> mail) list \<Rightarrow> msg_info list" where
  "fetched E mb = map (\<lambda>n. parse_message E n (the (map_of mb n))) (unseen_nums mb)"

definition addressees :: "(nat \<times> outmsg) list \<Rightarrow> (nat \<times> string) list" where
  "addressees rs = map (\<lambda>r. (fst r, out_to (snd r))) rs"

text \<open>\<open>blocks E u mi\<close>: handling \<open>mi\<close> raises before any call or flag change: \<open>mi\<close> is not
  automated, and its body is non-empty \<open>bytes\<close> (\<open>TypeError\<close> at line 254) or yields a valid
  business address other than \<open>u\<close> while the reply subject has a line break
  (\<open>ValueError\<close> at line 281).\<close>

definition blocks :: "environment \<Rightarrow> string \<Rightarrow> msg_info \<Rightarrow> bool" where
  "blocks E username mi \<longleftrightarrow>
     \<not> is_auto_generated (env_parseaddr E) (mi_raw mi) \<and>
     (case str_or_empty (mi_body mi) of
        None \<Rightarrow> True
      | Some b \<Rightarrow>
          (case extract_business_email b of
             None \<Rightarrow> False
           | Some a \<Rightarrow> a \<noteq> [] \<and> email_re_matches a \<and> py_lower a \<noteq> py_lower username \<and>
                       \<not> header_ok (REPLY_SUBJECT_PREFIX @ mi_subject mi)))"

subsection \<open>Addresses are single-line headers\<close>

lemma email_shaped_no_break: "email_shaped w \<Longrightarrow> list_all (\<lambda>c. \<not> is_linebreak c) w"
proof -
  have l: "local_chr c \<Longrightarrow> \<not> is_linebreak c" for c
    by (auto simp: local_chr_def is_alpha_code is_digit_code is_linebreak_def)
  have d: "domain_chr c \<Longrightarrow> \<not> is_linebreak c" for c
    by (auto simp: domain_chr_def is_alpha_code is_digit_code is_linebreak_def)
  have a: "is_alpha c \<Longrightarrow> \<not> is_linebreak c" for c
    by (auto simp: is_alpha_code is_linebreak_def)
  have p: "\<not> is_linebreak CHR ''@''" "\<not> is_linebreak CHR ''.''"
    by (simp_all add: is_linebreak_def code_def)
  assume "email_shaped w"
  then show ?thesis
    using l d a p by (fastforce simp: email_shaped_def list_all_iff)
qed

lemma email_re_matches_header_ok: "email_re_matches a \<Longrightarrow> header_ok a"
  by (auto simp: email_re_matches_split header_ok_def py_splitlines_def
      splitlines_acc_no_break splitlines_acc_final_LF email_shaped_no_break)

subsection \<open>The operations with servers that always answer OK\<close>

lemma ext_call_reliable: "ext_oracle E = (\<lambda>_. OK) \<Longrightarrow> ext_call E w = (OK, w\<lparr>calls := Suc (calls w)\<rparr>)"
  by (simp add: ext_call_def)

lemma call_status_reliable:
  "ext_oracle E = (\<lambda>_. OK) \<Longrightarrow> call_status E w = (Inr (), w\<lparr>calls := Suc (calls w)\<rparr>)"
  by (simp add: call_status_def ext_call_reliable)

lemma imap_open_reliable:
  "ext_oracle E = (\<lambda>_. OK) \<Longrightarrow> imap_open E w = (Inr (), w\<lparr>calls := calls w + 3\<rparr>)"
  by (simp add: imap_open_def call_status_def call_checked_def ext_call_reliable)

lemma imap_search_unseen_reliable:
  "ext_oracle E = (\<lambda>_. OK) \<Longrightarrow>
   imap_search_unseen E w = (Inr (Some (unseen_nums (inbox w))), w\<lparr>calls := Suc (calls w)\<rparr>)"
  by (simp add: imap_search_unseen_def ext_call_reliable)

lemma imap_store_reliable:
  "ext_oracle E = (\<lambda>_. OK) \<Longrightarrow>
   imap_store E n fs w = (Inr (), w\<lparr>calls := Suc (calls w), inbox := add_flags n fs (inbox w)\<rparr>)"
  by (simp add: imap_store_def ext_call_reliable)

lemma add_flags_ids [simp]: "map fst (add_flags n fs mb) = map fst mb"
  by (induction mb) (auto simp: add_flags_def)

lemma add_flags_content [simp]:
  "map_option (\<lambda>m. (hdrs m, content m)) (map_of (add_flags n fs mb) k) =
   map_option (\<lambda>m. (hdrs m, content m)) (map_of mb k)"
  by (cases "map_of mb k") (simp_all add: map_of_add_flags)

lemma imap_fetch_reliable:
  "ext_oracle E = (\<lambda>_. OK) \<Longrightarrow> map_of (inbox w) n = Some m \<Longrightarrow>
   \<exists>w'. imap_fetch E n w = (Inr (Some m), w') \<and> map fst (inbox w') = map fst (inbox w) \<and>
     (\<forall>k. map_option (\<lambda>m. (hdrs m, content m)) (map_of (inbox w') k) =
          map_option (\<lambda>m. (hdrs m, content m)) (map_of (inbox w) k))"
  by (simp add: imap_fetch_def ext_call_reliable)

lemma send_email_smtp_reliable:
  "ext_oracle E = (\<lambda>_. OK) \<Longrightarrow> header_ok subj \<Longrightarrow> header_ok fa \<Longrightarrow> header_ok (py_join '', '' tos) \<Longrightarrow>
   (truthy irt \<longrightarrow> header_ok (or_empty irt)) \<Longrightarrow>
   send_email_smtp E False subj body fa tos irt num w =
     (Inr True, w\<lparr>calls := calls w + 4,
        sent := sent w @ [(num, \<lparr>out_subject = subj, out_from = fa, out_to = py_join '', '' tos,
                   out_in_reply_to = (if truthy irt then irt else None), out_body = body\<rparr>)]\<rparr>)"
  by (simp add: send_email_smtp_def smtp_session_def smtp_transaction_def smtp_exit_def
      call_checked_def ext_call_reliable Let_def)

lemma parse_message_same_content:
  "map_option (\<lambda>m. (hdrs m, content m)) (map_of mb' k) = map_option (\<lambda>m. (hdrs m, content m)) (map_of mb k) \<Longrightarrow>
   parse_message E k (the (map_of mb' k)) = parse_message E k (the (map_of mb k))"
  by (cases "map_of mb k"; cases "map_of mb' k") (simp_all add: parse_message_def)

lemma fetch_each_reliable:
  "ext_oracle E = (\<lambda>_. OK) \<Longrightarrow> set nums \<subseteq> fst ` set (inbox w) \<Longrightarrow>
   \<exists>w'. fetch_each E nums acc w =
     (Inr (), acc @ map (\<lambda>n. parse_message E n (the (map_of (inbox w) n))) nums, w')"
proof (induction nums arbitrary: acc w)
  case Nil
  then show ?case by simp
next
  case (Cons n ns)
  obtain m where m: "map_of (inbox w) n = Some m"
    using Cons.prems(2) by (auto dest: weak_map_of_SomeI)
  obtain w1 where f: "imap_fetch E n w = (Inr (Some m), w1)" and ids: "map fst (inbox w1) = map fst (inbox w)"
    and hc: "\<forall>k. map_option (\<lambda>m. (hdrs m, content m)) (map_of (inbox w1) k) =
          map_option (\<lambda>m. (hdrs m, content m)) (map_of (inbox w) k)"
    using imap_fetch_reliable [OF Cons.prems(1) m] by blast
  have "fst ` set (inbox w1) = fst ` set (inbox w)"
    using ids by (metis set_map)
  then have "set ns \<subseteq> fst ` set (inbox w1)"
    using Cons.prems(2) by simp
  then obtain w' where "fetch_each E ns (acc @ [parse_message E n m]) w1 =
      (Inr (), (acc @ [parse_message E n m]) @ map (\<lambda>n. parse_message E n (the (map_of (inbox w1) n))) ns, w')"
    using Cons.IH [OF Cons.prems(1)] by blast
  moreover have "map (\<lambda>n. parse_message E n (the (map_of (inbox w1) n))) ns =
      map (\<lambda>n. parse_message E n (the (map_of (inbox w) n))) ns"
    using hc by (auto intro: parse_message_same_content)
  ultimately show ?case using f m by simp
qed

lemma unseen_nums_keys: "set (unseen_nums mb) \<subseteq> fst ` set mb"
  by (auto simp: unseen_nums_def)

lemma fetch_unseen_messages_reliable:
  "ext_oracle E = (\<lambda>_. OK) \<Longrightarrow> fst (fetch_unseen_messages E w) = fetched E (inbox w)"
proof -
  assume r: "ext_oracle E = (\<lambda>_. OK)"
  let ?w2 = "w\<lparr>calls := Suc (calls w + 3)\<rparr>"
  have "set (unseen_nums (inbox ?w2)) \<subseteq> fst ` set (inbox ?w2)" by (rule unseen_nums_keys)
  then obtain w' where "fetch_each E (unseen_nums (inbox ?w2)) [] ?w2 = (Inr (), fetched E (inbox w), w')"
    using fetch_each_reliable [OF r, of "unseen_nums (inbox ?w2)" ?w2 "[]"] by (auto simp: fetched_def)
  then show ?thesis
    by (simp add: fetch_unseen_messages_def imap_open_reliable [OF r] imap_search_unseen_reliable [OF r])
qed

lemma process_message_reliable:
  assumes r: "ext_oracle E = (\<lambda>_. OK)" and u: "header_ok u" and h: "processable mi"
  shows "\<exists>fs w'. process_message E g False u REPLY_SUBJECT_PREFIX REPLY_BODY_TEMPLATE mi w = (Inr (), w') \<and>
    Seen \<in> fs \<and> inbox w' = add_flags (mi_num mi) fs (inbox w) \<and>
    addressees (sent w') = addressees (sent w) @ reply_due E u mi"
proof -
  obtain b where cb: "compose_reply g REPLY_SUBJECT_PREFIX REPLY_BODY_TEMPLATE u (mi_subject mi) =
      Inr (REPLY_SUBJECT_PREFIX @ mi_subject mi, b)"
    using compose_reply_template by blast
  note st = imap_store_reliable [OF r]
  show ?thesis
  proof (cases "is_auto_generated (env_parseaddr E) (mi_raw mi)")
    case True
    then show ?thesis
      by (intro exI [of _ "{Seen}"]) (simp add: process_message_def st reply_due_def split: option.splits)
  next
    case False
    obtain body where bd: "str_or_empty (mi_body mi) = Some body" using h by (auto simp: processable_def)
    consider (none) "extract_business_email body = None"
      | (bad) a where "extract_business_email body = Some a"
          "a = [] \<or> \<not> email_re_matches a \<or> py_lower a = py_lower u"
      | (ok) a where "extract_business_email body = Some a" "a \<noteq> []" "email_re_matches a"
          "py_lower a \<noteq> py_lower u"
      by (cases "extract_business_email body") auto
    then show ?thesis
    proof cases
      case none
      then show ?thesis
        by (intro exI [of _ "{Seen}"]) (simp add: process_message_def False bd st reply_due_def)
    next
      case (bad a)
      then show ?thesis
        by (intro exI [of _ "{Seen}"]) (auto simp: process_message_def Let_def False bd st reply_due_def)
    next
      case (ok a)
      have send: "send_email_smtp E False (REPLY_SUBJECT_PREFIX @ mi_subject mi) b u [a]
          (msg_get (mi_raw mi) ''Message-ID'') (mi_num mi) w =
        (Inr True, w\<lparr>calls := calls w + 4,
          sent := sent w @ [(mi_num mi, \<lparr>out_subject = REPLY_SUBJECT_PREFIX @ mi_subject mi, out_from = u,
            out_to = a, out_in_reply_to = (if truthy (msg_get (mi_raw mi) ''Message-ID'')
              then msg_get (mi_raw mi) ''Message-ID'' else None), out_body = b\<rparr>)]\<rparr>)"
        using send_email_smtp_reliable [OF r] h u email_re_matches_header_ok [OF ok(3)]
        by (simp add: processable_def)
      show ?thesis
        by (intro exI [of _ "{Answered, Seen}"])
          (simp add: process_message_def Let_def False bd ok cb send st reply_due_def addressees_def)
    qed
  qed
qed

lemma unseen_nums_add_flags:
  "Seen \<in> fs \<Longrightarrow> unseen_nums (add_flags n fs mb) = filter (\<lambda>k. k \<noteq> n) (unseen_nums mb)"
  by (induction mb) (auto simp: unseen_nums_def add_flags_def)

lemma unseen_add_flags:
  "Seen \<in> fs \<Longrightarrow> set (unseen_nums (add_flags n fs mb)) = set (unseen_nums mb) - {n}"
  by (auto simp: unseen_nums_add_flags)

lemma process_all_reliable:
  assumes r: "ext_oracle E = (\<lambda>_. OK)" and u: "header_ok u"
  shows "list_all processable ms \<Longrightarrow>
    \<exists>w'. process_all E g False u REPLY_SUBJECT_PREFIX REPLY_BODY_TEMPLATE ms w = (Inr (), w') \<and>
      set (unseen_nums (inbox w')) = set (unseen_nums (inbox w)) - mi_num ` set ms \<and>
      addressees (sent w') = addressees (sent w) @ concat (map (reply_due E u) ms)"
proof (induction ms arbitrary: w)
  case Nil
  then show ?case by simp
next
  case (Cons mi ms)
  obtain fs w1 where p: "process_message E g False u REPLY_SUBJECT_PREFIX REPLY_BODY_TEMPLATE mi w = (Inr (), w1)"
    and fs: "Seen \<in> fs" and i1: "inbox w1 = add_flags (mi_num mi) fs (inbox w)"
    and s1: "addressees (sent w1) = addressees (sent w) @ reply_due E u mi"
    using process_message_reliable [OF r u] Cons.prems by fastforce
  obtain w' where "process_all E g False u REPLY_SUBJECT_PREFIX REPLY_BODY_TEMPLATE ms w1 = (Inr (), w')"
    and "set (unseen_nums (inbox w')) = set (unseen_nums (inbox w1)) - mi_num ` set ms"
    and "addressees (sent w') = addressees (sent w1) @ concat (map (reply_due E u) ms)"
    using Cons.IH Cons.prems by fastforce
  then show ?case
    using p i1 s1 unseen_add_flags [OF fs] by auto
qed

subsection \<open>A cycle answers every unseen message\<close>

lemma mail_le_unseen: "list_all2 mail_le mb mb' \<Longrightarrow> set (unseen_nums mb') \<subseteq> set (unseen_nums mb)"
  by (induction mb mb' rule: list_all2_induct) (auto simp: mail_le_def unseen_nums_def)

lemma world_le_unseen: "world_le w w' \<Longrightarrow> set (unseen_nums (inbox w')) \<subseteq> set (unseen_nums (inbox w))"
  unfolding world_le_def by (blast dest: mail_le_unseen)

lemma parse_message_num [simp]: "mi_num (parse_message E n m) = n"
  by (simp add: parse_message_def Let_def split: prod.splits)

lemma fetched_nums: "mi_num ` set (fetched E mb) = set (unseen_nums mb)"
  by (simp add: fetched_def image_image)

lemma reliable_cycle:
  assumes r: "ext_oracle E = (\<lambda>_. OK)" and tm: "\<not> cfg_test_mode cfg"
    and u: "header_ok (or_empty (cfg_username cfg))"
    and h: "list_all processable (fetched E (inbox w))"
  shows "unseen_nums (inbox (cycle E g cfg w)) = [] \<and>
    addressees (sent (cycle E g cfg w)) =
      addressees (sent w) @ concat (map (reply_due E (or_empty (cfg_username cfg))) (fetched E (inbox w)))"
proof -
  let ?u = "or_empty (cfg_username cfg)"
  let ?run = "auto_reply_if_business E g False ?u REPLY_SUBJECT_PREFIX REPLY_BODY_TEMPLATE w"
  have c: "cycle E g cfg w = snd ?run" using tm by (simp add: cycle_def)
  obtain ms w1 where f: "fetch_unseen_messages E w = (ms, w1)" by (cases "fetch_unseen_messages E w")
  have ms: "ms = fetched E (inbox w)" using fetch_unseen_messages_reliable [OF r, of w] f by simp
  have s1: "sent w1 = sent w" using fetch_unseen_messages_sent [OF f] .
  have un1: "set (unseen_nums (inbox w1)) \<subseteq> set (unseen_nums (inbox w))"
    using world_le_unseen [OF fetch_unseen_messages_le [OF f]] .
  have nums: "mi_num ` set ms = set (unseen_nums (inbox w))" using ms fetched_nums by simp
  show ?thesis
  proof (cases "ms = []")
    case True
    then have "?run = (Inr (), w1)" using f by (simp add: auto_reply_if_business_def)
    moreover have "set (unseen_nums (inbox w1)) = {}" using True nums un1 by simp
    ultimately show ?thesis using c True s1 ms by simp
  next
    case False
    have h': "list_all processable ms" using h ms by simp
    obtain w3 where pa: "process_all E g False ?u REPLY_SUBJECT_PREFIX REPLY_BODY_TEMPLATE ms
          (w1\<lparr>calls := calls w1 + 3\<rparr>) = (Inr (), w3)"
      and un3: "set (unseen_nums (inbox w3)) = set (unseen_nums (inbox w1)) - mi_num ` set ms"
      and s3: "addressees (sent w3) = addressees (sent w1) @ concat (map (reply_due E ?u) ms)"
      using process_all_reliable [OF r u h', of g "w1\<lparr>calls := calls w1 + 3\<rparr>"] by auto
    have "?run = (Inr (), snd (call_status E w3))"
      using f False pa by (simp add: auto_reply_if_business_def imap_open_reliable [OF r])
    then have w: "cycle E g cfg w = w3\<lparr>calls := Suc (calls w3)\<rparr>"
      using c by (simp add: call_status_reliable [OF r])
    have "set (unseen_nums (inbox w3)) = {}" using un3 un1 nums by (simp add: Diff_eq_empty_iff)
    then show ?thesis using w s3 s1 ms by simp
  qed
qed

text \<open>C18: with servers that always answer \<open>OK\<close>, outside test mode, with no line break in
  the operator address, and when every unseen message is processable (its body is a
  \<open>str\<close> or empty, and the headers of a reply to it have no line break), one cycle leaves
  no unseen message in the INBOX and sends exactly the replies owed, one per business
  message that is not automated and whose address is not the operator's, in INBOX order.
  C11 shows what a message that is not processable does instead.\<close>

theorem reliable_cycle_answers:
  assumes r: "ext_oracle E = (\<lambda>_. OK)" and tm: "\<not> cfg_test_mode cfg"
    and u: "header_ok (or_empty (cfg_username cfg))"
    and h: "list_all processable (fetched E (inbox w))"
  shows "unseen_nums (inbox (cycle E g cfg w)) = [] \<and>
    addressees (sent (cycle E g cfg w)) =
      addressees (sent w) @ concat (map (reply_due E (or_empty (cfg_username cfg))) (fetched E (inbox w)))"
  using reliable_cycle [OF r tm u h] .

subsection \<open>A message that raises blocks the INBOX\<close>

lemma imap_fetch_inbox: "\<not> fetch_sets_seen E \<Longrightarrow> imap_fetch E n w = (r, w') \<Longrightarrow> inbox w' = inbox w"
  by (auto simp: imap_fetch_def ext_call_def split: outcome.splits option.splits)

lemma fetch_each_inbox:
  "\<not> fetch_sets_seen E \<Longrightarrow> fetch_each E nums acc w = (r, ms, w') \<Longrightarrow> inbox w' = inbox w"
proof (induction nums arbitrary: acc w)
  case Nil
  then show ?case by simp
next
  case (Cons num nums)
  obtain r1 w1 where f: "imap_fetch E num w = (r1, w1)" by (cases "imap_fetch E num w")
  have i1: "inbox w1 = inbox w" using imap_fetch_inbox [OF Cons.prems(1) f] .
  show ?case
  proof (cases r1)
    case (Inl e)
    then show ?thesis using Cons.prems f i1 by simp
  next
    case (Inr mo)
    then obtain acc' where "fetch_each E nums acc' w1 = (r, ms, w')"
      using Cons.prems(2) f by (cases mo) auto
    then show ?thesis using Cons.IH [OF Cons.prems(1)] i1 by simp
  qed
qed

lemma fetch_unseen_messages_inbox:
  assumes "\<not> fetch_sets_seen E" and "fetch_unseen_messages E w = (ms, w')"
  shows "inbox w' = inbox w"
proof -
  obtain r1 w1 where o: "imap_open E w = (r1, w1)" by (cases "imap_open E w")
  obtain r2 w2 where s: "imap_search_unseen E w1 = (r2, w2)" by (cases "imap_search_unseen E w1")
  have i1: "inbox w1 = inbox w" using imap_open_same [OF o] by (simp add: same_mail_def)
  have i2: "inbox w2 = inbox w1" using imap_search_unseen_same [OF s] by (simp add: same_mail_def)
  have i3: "fetch_each E nums [] w2 = (r, m, w'') \<Longrightarrow> inbox w'' = inbox w2" for nums r m w''
    by (rule fetch_each_inbox [OF assms(1)])
  have i4: "inbox (snd (call_status E v)) = inbox v" for v
    by (cases "call_status E v") (auto dest: call_status_same simp: same_mail_def)
  show ?thesis
    using assms(2) o s i1 i2 unfolding fetch_unseen_messages_def
    by (cases r1; cases r2) (auto split: option.splits sum.splits prod.splits simp: i4 dest!: i3)
qed

lemma process_message_blocks:
  assumes "blocks E u mi"
  shows "\<exists>e. process_message E g tm u REPLY_SUBJECT_PREFIX REPLY_BODY_TEMPLATE mi w = (Inl e, w)"
proof (cases "str_or_empty (mi_body mi)")
  case None
  then show ?thesis using assms by (simp add: process_message_def blocks_def)
next
  case (Some b)
  then obtain a where a: "extract_business_email b = Some a" "a \<noteq> []" "email_re_matches a"
      "py_lower a \<noteq> py_lower u" "\<not> header_ok (REPLY_SUBJECT_PREFIX @ mi_subject mi)"
    using assms by (auto simp: blocks_def split: option.splits)
  obtain t where cb: "compose_reply g REPLY_SUBJECT_PREFIX REPLY_BODY_TEMPLATE u (mi_subject mi) =
      Inr (REPLY_SUBJECT_PREFIX @ mi_subject mi, t)"
    using compose_reply_template by blast
  show ?thesis
    using assms Some a cb
    by (simp add: process_message_def blocks_def send_email_smtp_def Let_def)
qed

lemma cycle_blocked:
  assumes r: "ext_oracle E = (\<lambda>_. OK)" and ns: "\<not> fetch_sets_seen E"
    and f: "fetched E (inbox w) = mi # ms" and b: "blocks E (or_empty (cfg_username cfg)) mi"
  shows "inbox (cycle E g cfg w) = inbox w \<and> sent (cycle E g cfg w) = sent w"
proof -
  let ?u = "or_empty (cfg_username cfg)"
  obtain ms' w1 where fe: "fetch_unseen_messages E w = (ms', w1)" by (cases "fetch_unseen_messages E w")
  have ms': "ms' = mi # ms" using fetch_unseen_messages_reliable [OF r, of w] fe f by simp
  have i1: "inbox w1 = inbox w" using fetch_unseen_messages_inbox [OF ns fe] .
  have s1: "sent w1 = sent w" using fetch_unseen_messages_sent [OF fe] .
  obtain e where p: "process_message E g (cfg_test_mode cfg) ?u REPLY_SUBJECT_PREFIX REPLY_BODY_TEMPLATE mi
      (w1\<lparr>calls := calls w1 + 3\<rparr>) = (Inl e, w1\<lparr>calls := calls w1 + 3\<rparr>)"
    using process_message_blocks [OF b] by blast
  have "cycle E g cfg w = w1\<lparr>calls := calls w1 + 3\<rparr>"
    using fe ms' p by (simp add: cycle_def auto_reply_if_business_def imap_open_reliable [OF r])
  then show ?thesis using i1 s1 by simp
qed

text \<open>C11: with the spec's side-effect-free fetch and servers that always answer \<open>OK\<close>, if
  handling the first unseen message raises (a \<open>bytes\<close> body, or a line break in the reply
  subject), then no run of cycles ever changes a flag of the INBOX or sends a reply: every
  later unseen message stays unseen and unanswered for ever.\<close>

theorem blocking_message_starves:
  assumes r: "ext_oracle E = (\<lambda>_. OK)" and ns: "\<not> fetch_sets_seen E"
    and f: "fetched E (inbox w) = mi # ms" and b: "blocks E (or_empty (cfg_username cfg)) mi"
  shows "inbox (run_cycles E g cfg n w) = inbox w \<and> sent (run_cycles E g cfg n w) = sent w"
  using f
proof (induction n arbitrary: w)
  case 0
  then show ?case by simp
next
  case (Suc n)
  have c: "inbox (cycle E g cfg w) = inbox w \<and> sent (cycle E g cfg w) = sent w"
    using cycle_blocked [OF r ns Suc.prems b] .
  then have "fetched E (inbox (cycle E g cfg w)) = mi # ms" using Suc.prems by simp
  then show ?case using Suc.IH c by simp
qed

end
