(* ===== verification/Html_Tags.thy ===== *)
theory Html_Tags
  imports Py_Regex Body_Text
begin

text \<open>
  The pattern \<open><[^>]+>\<close> of line 94 in the fragment of \<open>Py_Regex\<close>, and the proof that
  the recursive tag stripper \<open>strip_tags\<close> of \<open>Body_Text\<close> computes exactly what
  \<open>re.sub\<close> with this pattern and an empty replacement computes. The negated class
  \<open>[^>]\<close> is the two ranges U+0000..\<open>=\<close> and \<open>?\<close>..U+00FF, which is exact over the code
  points of the model. \<open>bt_tag\<close> says where the pattern matches; \<open>search_tag\<close> relates
  a search to one step of \<open>strip_tags\<close>; \<open>sub_loop_tag\<close> is the induction over the
  substitution loop.
\<close>

definition not_gt_cls :: cls where
  "not_gt_cls = [Rng (CHR 0x00) (CHR ''=''), Rng (CHR ''?'') (CHR 0xFF)]"

text \<open>Line 94: \<open>re.sub(r"<[^>]+>", "", html)\<close>.\<close>

definition TAG_RE :: regex where
  "TAG_RE = \<lparr>ignorecase = False, prog = lit ''<'' @ [Rep not_gt_cls 1 None] @ lit ''>''\<rparr>"

lemma in_not_gt_cls: "in_cls False not_gt_cls = (\<lambda>c. c \<noteq> CHR ''>'')"
proof
  fix c
  have "code c < 256" by (rule code_less_256)
  then show "in_cls False not_gt_cls c = (c \<noteq> CHR ''>'')"
    by (auto simp: in_cls_def in_cls0_def not_gt_cls_def in_range_def char_eq_code [of c])
qed

lemma bt_tag:
  "bt False (prog TAG_RE) t p =
     (if t \<noteq> [] \<and> hd t = CHR ''<'' \<and> takeWhile (\<lambda>x. x \<noteq> CHR ''>'') (tl t) \<noteq> [] \<and>
         dropWhile (\<lambda>x. x \<noteq> CHR ''>'') (tl t) \<noteq> []
      then Some (p + 2 + length (takeWhile (\<lambda>x. x \<noteq> CHR ''>'') (tl t)), []) else None)"
proof -
  have pr: "prog TAG_RE = Rep [Chr CHR ''<''] 1 (Some 1) # Rep not_gt_cls 1 None # lit ''>''"
    by (simp add: TAG_RE_def lit_def)
  have gt: "lit ''>'' = [Rep [Chr CHR ''>''] 1 (Some 1)]" by (simp add: lit_def)
  have in_gt: "in_cls False [Chr CHR ''>''] c \<longleftrightarrow> c = CHR ''>''" for c
    by (simp add: in_cls_def in_cls0_def)
  show ?thesis
  proof (cases "t \<noteq> [] \<and> hd t = CHR ''<''")
    case False
    then have "t = [] \<or> \<not> in_cls False [Chr CHR ''<''] (hd t)" by (auto simp: in_cls_def in_cls0_def)
    then have "bt False (prog TAG_RE) t p = None" unfolding pr by (rule bt_single_fail)
    then show ?thesis using False by auto
  next
    case True
    then obtain cs where t: "t = CHR ''<'' # cs" by (cases t) auto
    let ?u = "takeWhile (\<lambda>x. x \<noteq> CHR ''>'') cs"
    let ?v = "dropWhile (\<lambda>x. x \<noteq> CHR ''>'') cs"
    have cs: "cs = ?u @ ?v" by simp
    have step: "bt False (prog TAG_RE) t p = bt False (Rep not_gt_cls 1 None # lit ''>'') cs (Suc p)"
      unfolding pr t by (rule bt_single) (simp add: in_cls_def in_cls0_def)
    have tw: "takeWhile (in_cls False not_gt_cls) cs = ?u" by (simp add: in_not_gt_cls)
    have u_ok: "list_all (in_cls False not_gt_cls) ?u"
      by (auto simp: in_not_gt_cls list_all_iff dest: set_takeWhileD)
    show ?thesis
    proof (cases "?u \<noteq> [] \<and> ?v \<noteq> []")
      case True
      then have "hd ?v = CHR ''>''" using hd_dropWhile [of "\<lambda>x. x \<noteq> CHR ''>''" cs] by simp
      then obtain v' where v: "?v = CHR ''>'' # v'" using True by (cases ?v) auto
      have fin: "bt False (lit ''>'') ?v (Suc p + length ?u) = Some (p + 2 + length ?u, [])"
        unfolding gt v by (subst bt_single) (simp_all add: in_gt)
      have "bt False (Rep not_gt_cls 1 None # lit ''>'') (?u @ ?v) (Suc p) = Some (p + 2 + length ?u, [])"
      proof (rule bt_Rep_run [OF u_ok])
        show "?v = [] \<or> \<not> in_cls False not_gt_cls (hd ?v)" using v by (simp add: in_not_gt_cls)
        show "1 \<le> length ?u" using True by (cases ?u) auto
      qed (rule fin)
      then show ?thesis using step True t cs by simp
    next
      case False
      have none: "bt False (lit ''>'') (drop j cs) (Suc p + j) = None" if j: "1 \<le> j" "j \<le> length ?u" for j
      proof -
        have "drop j cs = [] \<or> \<not> in_cls False [Chr CHR ''>''] (hd (drop j cs))"
        proof (cases "j < length ?u")
          case True
          moreover have "j < length cs" using True length_takeWhile_le order_less_le_trans by blast
          ultimately have "hd (drop j cs) = ?u ! j" by (simp add: hd_drop_conv_nth takeWhile_nth)
          moreover have "?u ! j \<in> set ?u" using True by (rule nth_mem)
          ultimately show ?thesis by (auto simp: in_gt dest: set_takeWhileD)
        next
          case False
          with j have jl: "j = length ?u" by simp
          with j have "?u \<noteq> []" by auto
          with \<open>\<not> (?u \<noteq> [] \<and> ?v \<noteq> [])\<close> have "?v = []" by blast
          moreover have "drop (length ?u) cs = ?v" by (simp add: dropWhile_eq_drop)
          ultimately show ?thesis using jl by simp
        qed
        then show ?thesis unfolding gt by (rule bt_single_fail)
      qed
      have "bt False (Rep not_gt_cls 1 None # lit ''>'') cs (Suc p) =
          greedy (\<lambda>k. bt False (lit ''>'') (drop k cs) (Suc p + k)) 1 (length ?u)"
        by (simp only: bt.simps(2) rep_max.simps tw)
      also have "\<dots> = None" using none by (simp add: greedy_None_iff)
      finally show ?thesis using step False t by auto
    qed
  qed
qed

lemma search_tag:
  "(search_from False (prog TAG_RE) t p = None \<longrightarrow> strip_tags t = t) \<and>
   (\<forall>b e cs. search_from False (prog TAG_RE) t p = Some (b, e, cs) \<longrightarrow>
      p \<le> b \<and> b < e \<and> strip_tags t = take (b - p) t @ strip_tags (drop (e - p) t))"
proof (induction t arbitrary: p)
  case Nil
  then show ?case by (simp add: bt_tag)
next
  case (Cons c cs)
  let ?C = "c = CHR ''<'' \<and> takeWhile (\<lambda>x. x \<noteq> CHR ''>'') cs \<noteq> [] \<and> dropWhile (\<lambda>x. x \<noteq> CHR ''>'') cs \<noteq> []"
  show ?case
  proof (cases ?C)
    case True
    have "tl (dropWhile (\<lambda>x. x \<noteq> CHR ''>'') cs) = drop (Suc (length (takeWhile (\<lambda>x. x \<noteq> CHR ''>'') cs))) cs"
      by (simp add: dropWhile_eq_drop drop_Suc tl_drop)
    then show ?thesis using True by (simp add: bt_tag)
  next
    case False
    then have st: "strip_tags (c # cs) = c # strip_tags cs" by auto
    have "bt False (prog TAG_RE) (c # cs) p = None" using False by (auto simp: bt_tag)
    then have sf: "search_from False (prog TAG_RE) (c # cs) p = search_from False (prog TAG_RE) cs (Suc p)"
      by simp
    show ?thesis
    proof (intro conjI allI impI)
      assume "search_from False (prog TAG_RE) (c # cs) p = None"
      then show "strip_tags (c # cs) = c # cs" using Cons.IH [of "Suc p"] st sf by simp
    next
      fix b e cs'
      assume "search_from False (prog TAG_RE) (c # cs) p = Some (b, e, cs')"
      then have "search_from False (prog TAG_RE) cs (Suc p) = Some (b, e, cs')" using sf by simp
      then have be: "Suc p \<le> b" "b < e" and
        ih: "strip_tags cs = take (b - Suc p) cs @ strip_tags (drop (e - Suc p) cs)"
        using conjunct2 [OF Cons.IH [of "Suc p"]] by blast+
      then have "b - p = Suc (b - Suc p)" "e - p = Suc (e - Suc p)" by auto
      then show "p \<le> b" "b < e"
        and "strip_tags (c # cs) = take (b - p) (c # cs) @ strip_tags (drop (e - p) (c # cs))"
        using be ih st by simp_all
    qed
  qed
qed

lemma sub_loop_tag:
  "sub_loop False (prog TAG_RE) [] s i False acc = Some (acc @ strip_tags (drop i s))"
proof (induction "length s - i" arbitrary: i acc rule: less_induct)
  case less
  show ?case
  proof (cases "search_from False (prog TAG_RE) (drop i s) i")
    case None
    then show ?thesis using search_tag [of "drop i s" i]
      by (simp add: sub_loop.simps search_adv_False)
  next
    case (Some r)
    then obtain b e cs where r: "search_from False (prog TAG_RE) (drop i s) i = Some (b, e, cs)"
      by (cases r) auto
    have bd: "i \<le> b" "b < e"
      and st: "strip_tags (drop i s) = take (b - i) (drop i s) @ strip_tags (drop (e - i) (drop i s))"
      using search_tag [of "drop i s" i] r by auto
    have "e \<le> i + length (drop i s)"
      using search_adv_Some [of False False "prog TAG_RE" "drop i s" i b e cs] r
      by (simp only: search_adv_False simp_thms)
    then have "length s - e < length s - i" using bd by auto
    then have "sub_loop False (prog TAG_RE) [] s e False (acc @ substr s i b) =
        Some (acc @ substr s i b @ strip_tags (drop e s))"
      using less by simp
    moreover have "drop (e - i) (drop i s) = drop e s" using bd by simp
    ultimately show ?thesis
      using r bd st by (simp add: sub_loop.simps search_adv_False substr_def)
  qed
qed

text \<open>C19: the tag stripper of the model is \<open>re.sub(r"<[^>]+>", "", html)\<close> (line 94) run
  by the regular-expression engine: for every HTML text the engine's substitution returns,
  and it returns \<open>strip_tags html\<close>.\<close>

theorem strip_tags_is_re_sub: "re_sub TAG_RE [] html = Some (strip_tags html)"
  using sub_loop_tag [of html 0 "[]"] by (simp add: re_sub_def TAG_RE_def)

end
