(* ===== verification/Spec2Isabelle.thy ===== *)
theory Spec2Isabelle
  imports Extract Classifier Body_Text Config Cycle Reliable Html_Tags
begin

text \<open>
  A verification model of the Asterion e-mail auto-responder,
  \<open>src/improved_auto_reply.py\<close>. The program polls a mailbox over IMAP, skips automated
  mail, extracts a "business email" address from the body of each unseen message with
  regular expressions, replies to it over SMTP and flags the message. The main loop
  (\<open>__main__\<close>) runs one cycle (\<open>auto_reply_if_business\<close>) after another; a cycle
  fetches the unseen messages (\<open>fetch_unseen_messages\<close>, which parses each with
  \<open>decode_subject\<close> and \<open>get_text_from_message\<close>), then for each message calls the
  classifier \<open>is_auto_generated\<close>, the extractor \<open>extract_business_email\<close>, the composer
  and \<open>send_email_smtp\<close>, and stores flags.

  \<^bold>\<open>Library.\<close>
  \<^item> \<open>Prelude\<close>: the Python \<open>str\<close> primitives the program calls (\<open>lower\<close>, \<open>isspace\<close>,
    \<open>in\<close>, \<open>strip\<close>, \<open>splitlines\<close>, truthiness), over the code points U+0000..U+00FF, the
    shared list and code-point lemmas, and the collections \<open>py_str\<close> and
    \<open>world_le_step\<close>.
  \<^item> \<open>Py_Regex\<close>: the fragment of Python's \<open>re\<close> the patterns use: a backtracking,
    greedy, leftmost matcher (\<open>bt\<close>, \<open>search_from\<close>, \<open>re_search\<close>, \<open>re_match\<close>,
    \<open>group1\<close>), \<open>re.sub\<close> with CPython's \<open>must_advance\<close> rule (\<open>re_sub\<close>, a
    \<open>partial_function\<close>), and the declarative semantics \<open>results\<close>; the matcher finds a match
    exactly when one exists (\<open>bt_None_iff\<close>, \<open>bt_sound\<close>), a search returns the
    leftmost one, and lemmas run the matcher over known input (\<open>bt_Rep_run\<close>,
    \<open>bt_lit\<close>, \<open>search_from_skip\<close>).
  \<^item> \<open>Extract\<close>: \<open>EMAIL_RE\<close>, \<open>BUSINESS_EMAIL_LINE_RE\<close> (lines 50-54), the inline pattern
    of lines 199/206, and \<open>extract_business_email\<close> (lines 181-211) as
    \<open>direct_candidate\<close> (phase one), \<open>scan_lines\<close> and \<open>line_candidate\<close> (phase two).
    \<open>email_shaped\<close> is the contract of an address (spec section 3).
  \<^item> \<open>Classifier\<close>: \<open>is_auto_generated\<close> (lines 56-71) over the header list of a message,
    with \<open>email.utils.parseaddr\<close> as a parameter, and the rules of spec section 4.1 as
    \<open>is_automated_spec\<close>.
  \<^item> \<open>Body_Text\<close>: a parsed message as a MIME tree whose leaves hold what \<open>get_content()\<close>
    returns (\<open>str\<close> or \<open>bytes\<close>), \<open>get_text_from_message\<close> (lines 73-102) with the tag stripper \<open>strip_tags\<close>, and \<open>decode_subject\<close> (lines 104-110) with
    the standard-library decoder as a parameter.
  \<^item> \<open>Mailbox\<close>: the world (INBOX with flags, replies accepted by the SMTP server, number
    of external calls) and the IMAP commands; every external call reads \<open>OK\<close>, \<open>NO\<close> or
    an exception from an oracle indexed by the call count, so every failure of the servers
    is a possible input; \<open>fetch_unseen_messages\<close> (lines 112-151). \<open>world_le\<close> says that
    one world extends another.
  \<^item> \<open>Config\<close>: the configuration of lines 17-25 with \<open>int()\<close> as \<open>py_int\<close>.
  \<^item> \<open>Reply\<close>: the template values (lines 29-44), \<open>str.format\<close>, the composer (lines
    271-277), and \<open>send_email_smtp\<close> (lines 153-179) with the header check that raises
    \<open>ValueError\<close>, \<open>TEST_MODE\<close>, the SMTP session and its \<open>QUIT\<close>, and the \<open>except\<close> that
    catches only \<open>SMTPException\<close> and \<open>gaierror\<close>.
  \<^item> \<open>Cycle\<close>: \<open>process_message\<close> (the loop body, lines 237-305), \<open>process_all\<close>,
    \<open>auto_reply_if_business\<close> (lines 213-310), the main loop as \<open>cycle\<close>, \<open>run_cycles\<close>
    and \<open>main\<close> (lines 312-338), and \<open>reach\<close>, the worlds of a run (cycles interleaved with
    the delivery of new mail).
  \<^item> \<open>Reliable\<close>: the cycle against servers that always answer \<open>OK\<close>: every operation
    has one outcome, the fetch returns the unseen messages parsed (\<open>fetched\<close>),
    \<open>reply_due\<close> is the reply a message is owed, \<open>processable\<close> says that handling it
    raises nothing and \<open>blocks\<close> that it raises before any flag is stored.
  \<^item> \<open>Html_Tags\<close>: the pattern \<open><[^>]+>\<close> of line 94 and the proof that \<open>strip_tags\<close> is
    \<open>re.sub\<close> of \<open>Py_Regex\<close> with that pattern.
  \<^item> \<open>Spec2Isabelle\<close> (this theory): fixtures and the properties that span components.

  \<^bold>\<open>Results.\<close> Extractor: every address returned is email-shaped and occurs in the
  body (C1); \<open>EMAIL_RE.match\<close> accepts exactly the email-shaped strings, also with one
  final newline (C2); a labelled address is found under the hypotheses spec section 8
  leaves out, also when label and address span lines (C3). Classifier: it agrees with spec
  section 4.1 exactly when the trigger fields are non-empty (C4) and never skips a message
  the spec would answer (C5). Body text: no tag survives the stripper (C6), which computes
  \<open>re.sub(r"<[^>]+>", "", html)\<close> as the regular-expression engine runs it (C19);
  \<open>get_text_from_message\<close> returns a \<open>str\<close> except for a single-part binary message, where
  it returns \<open>bytes\<close> (C7). Configuration: \<open>int()\<close> reads back \<open>str()\<close> (C8), and loading
  fails only with \<open>ValueError\<close>, exactly on a port or interval that \<open>int()\<close> rejects (C15).
  Cycle: along any run flags and replies only grow (C9); every reply answers a message of
  the INBOX at the address extracted from its body, never the operator's (C12); with RFC
  3501 fetch semantics no message is answered twice (C13); a failing flag-update
  connection is not retried under RFC 3501 (C10); a first unseen message that raises (a
  \<open>bytes\<close> body, or a reply subject with a line break) blocks every later message for ever
  under the spec's fetch semantics (C11); with servers that always answer \<open>OK\<close> and no
  such message, one cycle leaves no unseen message and sends exactly the replies owed, in
  INBOX order (C18). Sending: a subject with a line break raises \<open>ValueError\<close> before any
  call, test mode never transmits, an \<open>SMTPException\<close> or \<open>gaierror\<close> is reported as
  \<open>False\<close> and every other exception escapes (C14); the shipped template always formats,
  and the reply body is stated exactly (C17). Bounds: a cycle makes at most \<open>9 + 7k\<close>
  calls for \<open>k\<close> unseen messages (C16), and \<open>n\<close> cycles at most \<open>n (9 + 7 m)\<close> for an INBOX
  of \<open>m\<close> messages (C20). The theorems \<open>extract_unit_tests\<close>,
  \<open>extract_drops_leading_hyphen\<close>, \<open>automated_reply_on_store_failure\<close>,
  \<open>reply_sent_but_not_answered\<close>, \<open>duplicate_reply_after_store_failure\<close> and
  \<open>line_break_subject_starves_later_mail\<close> evaluate the unit tests and the scenarios of the
  findings on concrete worlds.

  \<^bold>\<open>Modelling choices.\<close> A Python \<open>str\<close> is a \<open>string\<close> whose characters are read as
  code points below U+0100; within that range \<open>str.lower\<close>, \<open>str.isspace\<close>,
  \<open>str.splitlines\<close> and the case-insensitive matching of \<open>re.I\<close> are exact (outside it
  Python folds a few more characters, e.g. U+017F with \<open>s\<close>). Regular-expression
  matching is total and structural, so no fuel is needed; the substitution loop of
  \<open>re.sub\<close> is a \<open>partial_function (option)\<close> whose totality is proved (\<open>re_sub_terminates\<close>). The servers are an oracle,
  so the theorems over all oracles cover every sequence of answers and failures;
  \<open>fetch_sets_seen\<close> chooses between RFC 3501 (\<open>FETCH RFC822\<close> sets \<open>\Seen\<close>) and the
  side-effect-free fetch of the spec. The infinite \<open>while True\<close> loop is modelled by its
  first \<open>n\<close> cycles (\<open>run_cycles\<close>) and by the reachable worlds (\<open>reach\<close>); theorems
  about every run hold for every \<open>n\<close>. Messages carry their IMAP sequence numbers, which
  stay stable since the program never expunges.  A message body is the value \<open>get_content()\<close> returns, a \<open>str\<close> or
  \<open>bytes\<close> according to the content type (\<open>mime_ok\<close>); \<open>int()\<close> skips only the ASCII
  whitespace and the two Latin-1 spaces CPython maps to a space, and rejects more than
  4300 digits (the default limit of CPython 3.11 and later).

  \<^bold>\<open>Not modelled.\<close> Logging, \<open>load_dotenv\<close> and \<open>time.sleep\<close> (no effect on the state);
  the byte-level MIME parser and the RFC 2047 decoder of the standard library (a parsed
  message is given as headers and a MIME tree, the decoder is a parameter); TLS and
  the wire protocols (each command is one oracle answer); \<open>KeyboardInterrupt\<close>. Python's
  case folding beyond U+00FF under \<open>re.I\<close> (dotless \<open>i\<close>, dotted capital \<open>I\<close>, long
  \<open>s\<close>, the Kelvin sign): there \<open>BUSINESS_EMAIL_LINE_RE\<close> can capture a group that
  \<open>EMAIL_RE\<close> rejects, so the re-validation at line 192 is live, which the model does not
  show. A select or connect answered \<open>NO\<close> counts as success (\<open>imaplib\<close> would raise on the
  next command), an over-approximation of the server's answers.
\<close>

subsection \<open>Example messages, servers and configuration\<close>

text \<open>Fixtures for the scenarios below: a message from \<open>jane@example.org\<close> with a given
  subject, extra header fields and plain-text body; an environment whose oracle is
  given (\<open>fail_at k r\<close> answers \<open>r\<close> to the \<open>k\<close>-th external call and \<open>OK\<close> to all
  others) and whose header decoder turns the encoded word \<open>=?utf-8?q?a=0Ab?=\<close> into
  \<open>a\<close>, line feed, \<open>b\<close>; and the operator account \<open>bot@asterion.example\<close>.\<close>

definition ex_mail :: "string \<Rightarrow> headers \<Rightarrow> string \<Rightarrow> mail" where
  "ex_mail subj hs body =
     \<lparr>hdrs = [(''From'', ''jane@example.org''), (''Subject'', subj)] @ hs,
      content = Leaf ''text/plain'' (Some (Str body)) [], flags = {}\<rparr>"

definition ex_env :: "(nat \<Rightarrow> outcome) \<Rightarrow> bool \<Rightarrow> environment" where
  "ex_env outcomes seen =
     \<lparr>ext_oracle = outcomes, fetch_sets_seen = seen, env_parseaddr = (\<lambda>s. ([], s)),
      env_decode_header = (\<lambda>s. Some (if s = ''=?utf-8?q?a=0Ab?='' then ''a\<newline>b'' else s))\<rparr>"

definition ex_cfg :: config where
  "ex_cfg = \<lparr>cfg_imap_host = ''imap.example'', cfg_imap_port = 993, cfg_smtp_host = ''smtp.example'',
     cfg_smtp_port = 465, cfg_username = Some ''bot@asterion.example'', cfg_password = Some ''secret'',
     cfg_poll_interval = 120, cfg_test_mode = False\<rparr>"

definition ex_world :: "(nat \<times> mail) list \<Rightarrow> world" where
  "ex_world mb = \<lparr>inbox = mb, sent = [], calls = 0\<rparr>"

definition flags_of :: "world \<Rightarrow> nat \<Rightarrow> flag set option" where
  "flags_of w n = map_option flags (map_of (inbox w) n)"

text \<open>An INBOX with a business message and a message without an address.\<close>

definition ex_inbox2 :: "(nat \<times> mail) list" where
  "ex_inbox2 = [(1, ex_mail ''Hi'' [] ''business email a@b.co''), (2, ex_mail ''Hey'' [] ''No contact here'')]"

text \<open>An INBOX whose first message has a subject that decodes to a line break.\<close>

definition ex_inbox_lb :: "(nat \<times> mail) list" where
  "ex_inbox_lb = [(1, ex_mail ''=?utf-8?q?a=0Ab?='' [] ''business email a@b.co''),
                  (2, ex_mail ''Hi'' [] ''business email c@d.co'')]"

definition fail_at :: "nat \<Rightarrow> outcome \<Rightarrow> nat \<Rightarrow> outcome" where
  "fail_at k r i = (if i = k then r else OK)"

subsection \<open>The address extractor\<close>

text \<open>The four tests of \<open>src/tests/test_extract_business_email.py\<close> hold of the model:
  a labelled address after a hyphen or a colon is found, an address on the line after the
  label is found, and a body without an address gives \<open>None\<close>.\<close>

theorem extract_unit_tests:
  "extract_business_email ''Hello\<newline>Business email - contact@example.com\<newline>Thanks'' =
     Some ''contact@example.com'' \<and>
   extract_business_email ''Business email:  user@example.org'' = Some ''user@example.org'' \<and>
   extract_business_email ''Please contact:\<newline>Business email\<newline>contact2@example.net'' =
     Some ''contact2@example.net'' \<and>
   extract_business_email ''No contact here'' = None"
  by code_simp

text \<open>Scenario: an address whose local part starts with a hyphen loses it: the separator class
  \<open>[:\-\s]*\<close> of \<open>BUSINESS_EMAIL_LINE_RE\<close> is greedy and contains \<open>-\<close>, so the group
  starts after the hyphens and the reply goes to a different address.\<close>

theorem extract_drops_leading_hyphen:
  "email_shaped ''-john@example.com'' \<and>
   extract_business_email ''Business email: -john@example.com'' = Some ''john@example.com''"
proof
  show "email_shaped ''-john@example.com''"
    unfolding email_shaped_def
    by (intro exI [of _ "''-john''"] exI [of _ "''example''"] exI [of _ "''com''"])
      (simp add: local_chr_def domain_chr_def is_alpha_def is_digit_def in_range_def)
  show "extract_business_email ''Business email: -john@example.com'' = Some ''john@example.com''"
    by code_simp
qed

subsection \<open>The cycle against failing servers\<close>

text \<open>Scenario: the classifier's \<open>try\<close> (lines 245-251) also covers the \<open>store\<close> that marks
  an automated message \<open>Seen\<close>: when that call raises, the handler falls through to
  extraction and the bulk message is answered. With every call succeeding it is not.\<close>

theorem automated_reply_on_store_failure:
  "is_auto_generated (\<lambda>s. ([], s)) (hdrs (ex_mail ''Hi'' [(''Precedence'', ''bulk'')] ''business email a@b.co'')) \<and>
   sent (cycle (ex_env (\<lambda>_. OK) True) (\<lambda>_. None) ex_cfg
     (ex_world [(1, ex_mail ''Hi'' [(''Precedence'', ''bulk'')] ''business email a@b.co'')])) = [] \<and>
   map fst (sent (cycle (ex_env (fail_at 9 (Raise OSError)) True) (\<lambda>_. None) ex_cfg
     (ex_world [(1, ex_mail ''Hi'' [(''Precedence'', ''bulk'')] ''business email a@b.co'')]))) = [1]"
  by code_simp

text \<open>Scenario: when the server answers \<open>QUIT\<close> with a code other than 221 after accepting
  the reply, \<open>SMTP.__exit__\<close> raises \<open>SMTPResponseException\<close>, \<open>send_email_smtp\<close>
  returns \<open>False\<close>, and the message is flagged \<open>Seen\<close> only although one reply was
  transmitted (spec section 8, scenario 5, says a failed transmission sends none).\<close>

theorem reply_sent_but_not_answered:
  "map fst (sent (cycle (ex_env (fail_at 12 NO) True) (\<lambda>_. None) ex_cfg
     (ex_world [(1, ex_mail ''Hi'' [] ''business email a@b.co'')]))) = [1] \<and>
   flags_of (cycle (ex_env (fail_at 12 NO) True) (\<lambda>_. None) ex_cfg
     (ex_world [(1, ex_mail ''Hi'' [] ''business email a@b.co'')])) 1 = Some {Seen}"
  by code_simp

text \<open>Scenario: spec section 9's open question. With the spec's mailbox service (fetching does
  not set \<open>\Seen\<close>), a failing flag update after a successful send leaves the message
  unseen and the next cycle answers it again; with RFC 3501 semantics (\<open>FETCH RFC822\<close>
  sets \<open>\Seen\<close>) it is answered once.\<close>

theorem duplicate_reply_after_store_failure:
  "map fst (sent (run_cycles (ex_env (fail_at 13 (Raise OSError)) False) (\<lambda>_. None) ex_cfg 2
     (ex_world [(1, ex_mail ''Hi'' [] ''business email a@b.co'')]))) = [1, 1] \<and>
   map fst (sent (run_cycles (ex_env (fail_at 13 (Raise OSError)) True) (\<lambda>_. None) ex_cfg 2
     (ex_world [(1, ex_mail ''Hi'' [] ''business email a@b.co'')]))) = [1]"
  by code_simp

text \<open>C10: spec section 4.5 says a failure opening the flag-update connection is retried
  on the next timer tick. That holds for the spec's mailbox service, but with RFC 3501
  semantics the fetch already set \<open>\Seen\<close>, so the message is never answered in any
  number of cycles.\<close>

theorem flag_connection_failure_drops_messages:
  "(\<forall>n. sent (run_cycles (ex_env (fail_at 6 (Raise OSError)) True) (\<lambda>_. None) ex_cfg (Suc n)
      (ex_world [(1, ex_mail ''Hi'' [] ''business email a@b.co'')])) = []) \<and>
   map fst (sent (run_cycles (ex_env (fail_at 6 (Raise OSError)) False) (\<lambda>_. None) ex_cfg 2
      (ex_world [(1, ex_mail ''Hi'' [] ''business email a@b.co'')]))) = [1]"
proof
  let ?w = "cycle (ex_env (fail_at 6 (Raise OSError)) True) (\<lambda>_. None) ex_cfg
      (ex_world [(1, ex_mail ''Hi'' [] ''business email a@b.co'')])"
  have c: "unseen_nums (inbox ?w) = [] \<and> sent ?w = []" by code_simp
  show "\<forall>n. sent (run_cycles (ex_env (fail_at 6 (Raise OSError)) True) (\<lambda>_. None) ex_cfg (Suc n)
      (ex_world [(1, ex_mail ''Hi'' [] ''business email a@b.co'')])) = []"
    using run_cycles_idle [of ?w] c by simp
  show "map fst (sent (run_cycles (ex_env (fail_at 6 (Raise OSError)) False) (\<lambda>_. None) ex_cfg 2
      (ex_world [(1, ex_mail ''Hi'' [] ''business email a@b.co'')]))) = [1]"
    by code_simp
qed

text \<open>Scenario: a subject that decodes to text with a line break makes \<open>msg["Subject"] = ...\<close>
  raise \<open>ValueError\<close> outside any \<open>try\<close> of the loop, which ends the cycle before the
  later messages are handled. With RFC 3501 semantics the later message is already
  \<open>Seen\<close> and is never answered; with the spec's mailbox service it stays unseen and
  unanswered, since every cycle stops at the same message.\<close>

theorem line_break_subject_starves_later_mail:
  "(\<forall>n. sent (run_cycles (ex_env (\<lambda>_. OK) True) (\<lambda>_. None) ex_cfg (Suc n)
      (ex_world [(1, ex_mail ''=?utf-8?q?a=0Ab?='' [] ''business email a@b.co''),
                 (2, ex_mail ''Hi'' [] ''business email c@d.co'')])) = [] \<and>
       flags_of (run_cycles (ex_env (\<lambda>_. OK) True) (\<lambda>_. None) ex_cfg (Suc n)
      (ex_world [(1, ex_mail ''=?utf-8?q?a=0Ab?='' [] ''business email a@b.co''),
                 (2, ex_mail ''Hi'' [] ''business email c@d.co'')])) 2 = Some {Seen}) \<and>
   sent (run_cycles (ex_env (\<lambda>_. OK) False) (\<lambda>_. None) ex_cfg 3
      (ex_world [(1, ex_mail ''=?utf-8?q?a=0Ab?='' [] ''business email a@b.co''),
                 (2, ex_mail ''Hi'' [] ''business email c@d.co'')])) = [] \<and>
   flags_of (run_cycles (ex_env (\<lambda>_. OK) False) (\<lambda>_. None) ex_cfg 3
      (ex_world [(1, ex_mail ''=?utf-8?q?a=0Ab?='' [] ''business email a@b.co''),
                 (2, ex_mail ''Hi'' [] ''business email c@d.co'')])) 2 = Some {}"
proof (intro conjI allI)
  let ?w = "cycle (ex_env (\<lambda>_. OK) True) (\<lambda>_. None) ex_cfg
      (ex_world [(1, ex_mail ''=?utf-8?q?a=0Ab?='' [] ''business email a@b.co''),
                 (2, ex_mail ''Hi'' [] ''business email c@d.co'')])"
  have c: "unseen_nums (inbox ?w) = [] \<and> sent ?w = [] \<and> flags_of ?w 2 = Some {Seen}" by code_simp
  fix n
  show "sent (run_cycles (ex_env (\<lambda>_. OK) True) (\<lambda>_. None) ex_cfg (Suc n)
      (ex_world [(1, ex_mail ''=?utf-8?q?a=0Ab?='' [] ''business email a@b.co''),
                 (2, ex_mail ''Hi'' [] ''business email c@d.co'')])) = []"
    using run_cycles_idle [of ?w] c by simp
  show "flags_of (run_cycles (ex_env (\<lambda>_. OK) True) (\<lambda>_. None) ex_cfg (Suc n)
      (ex_world [(1, ex_mail ''=?utf-8?q?a=0Ab?='' [] ''business email a@b.co''),
                 (2, ex_mail ''Hi'' [] ''business email c@d.co'')])) 2 = Some {Seen}"
    using run_cycles_idle [of ?w] c by (simp add: flags_of_def)
qed code_simp+

subsection \<open>Witnesses\<close>

theorem reach_keeps_mail_and_replies_witness:
  "list_all2 mail_le (inbox (ex_world [(1, ex_mail ''Hi'' [] ''business email a@b.co'')]))
     (take 1 (inbox (cycle (ex_env (\<lambda>_. OK) True) (\<lambda>_. None) ex_cfg
        (ex_world [(1, ex_mail ''Hi'' [] ''business email a@b.co'')])))) \<and>
   prefix [] (sent (cycle (ex_env (\<lambda>_. OK) True) (\<lambda>_. None) ex_cfg
     (ex_world [(1, ex_mail ''Hi'' [] ''business email a@b.co'')])))"
  using reach_keeps_mail_and_replies [OF reach.step_cycle [OF reach.init,
      of "ex_env (\<lambda>_. OK) True" "\<lambda>_. None" ex_cfg "ex_world [(1, ex_mail ''Hi'' [] ''business email a@b.co'')]"]]
  by (simp add: ex_world_def)

theorem replies_answer_extracted_addresses_witness:
  "sent (cycle (ex_env (\<lambda>_. OK) True) (\<lambda>_. None) ex_cfg
      (ex_world [(1, ex_mail ''Hi'' [] ''business email a@b.co'')])) \<noteq> [] \<and>
   list_all (reply_ok ''bot@asterion.example''
      (inbox (cycle (ex_env (\<lambda>_. OK) True) (\<lambda>_. None) ex_cfg
        (ex_world [(1, ex_mail ''Hi'' [] ''business email a@b.co'')]))))
     (sent (cycle (ex_env (\<lambda>_. OK) True) (\<lambda>_. None) ex_cfg
        (ex_world [(1, ex_mail ''Hi'' [] ''business email a@b.co'')])))"
proof
  show "sent (cycle (ex_env (\<lambda>_. OK) True) (\<lambda>_. None) ex_cfg
      (ex_world [(1, ex_mail ''Hi'' [] ''business email a@b.co'')])) \<noteq> []"
    by code_simp
  show "list_all (reply_ok ''bot@asterion.example''
      (inbox (cycle (ex_env (\<lambda>_. OK) True) (\<lambda>_. None) ex_cfg
        (ex_world [(1, ex_mail ''Hi'' [] ''business email a@b.co'')]))))
     (sent (cycle (ex_env (\<lambda>_. OK) True) (\<lambda>_. None) ex_cfg
        (ex_world [(1, ex_mail ''Hi'' [] ''business email a@b.co'')])))"
    using replies_answer_extracted_addresses [OF reach.step_cycle [OF reach.init,
      of "ex_env (\<lambda>_. OK) True" "\<lambda>_. None" ex_cfg "ex_world [(1, ex_mail ''Hi'' [] ''business email a@b.co'')]"]]
    by (simp add: ex_world_def ex_cfg_def)
qed

theorem no_duplicate_replies_witness:
  "distinct (map fst (sent (cycle (ex_env (fail_at 13 (Raise OSError)) True) (\<lambda>_. None) ex_cfg
     (cycle (ex_env (fail_at 13 (Raise OSError)) True) (\<lambda>_. None) ex_cfg
       (ex_world [(1, ex_mail ''Hi'' [] ''business email a@b.co'')])))))"
  by (rule no_duplicate_replies [OF reach.step_cycle [OF reach.step_cycle [OF reach.init]]])
    (simp_all add: ex_world_def ex_env_def)


theorem load_config_errors_witness:
  "\<not> (\<exists>cfg. load_config (\<lambda>v. if v = ''SMTP_PORT'' then Some ''smtp'' else None) = Inr cfg)"
proof -
  have h: "py_int ''smtp'' = None" by code_simp
  show ?thesis
    using load_config_errors [of "\<lambda>v. if v = ''SMTP_PORT'' then Some ''smtp'' else None"] h by simp
qed

lemma ex_inbox2_reliable:
  "ext_oracle (ex_env (\<lambda>_. OK) True) = (\<lambda>_. OK) \<and> \<not> cfg_test_mode ex_cfg \<and>
   header_ok (or_empty (cfg_username ex_cfg)) \<and>
   list_all processable (fetched (ex_env (\<lambda>_. OK) True) (inbox (ex_world ex_inbox2))) \<and>
   concat (map (reply_due (ex_env (\<lambda>_. OK) True) (or_empty (cfg_username ex_cfg)))
     (fetched (ex_env (\<lambda>_. OK) True) (inbox (ex_world ex_inbox2)))) = [(1, ''a@b.co'')]"
proof (intro conjI)
  show "ext_oracle (ex_env (\<lambda>_. OK) True) = (\<lambda>_. OK)" by (simp add: ex_env_def)
  show "\<not> cfg_test_mode ex_cfg" by (simp add: ex_cfg_def)
  show "header_ok (or_empty (cfg_username ex_cfg))" by code_simp
  show "list_all processable (fetched (ex_env (\<lambda>_. OK) True) (inbox (ex_world ex_inbox2)))"
    by code_simp
  show "concat (map (reply_due (ex_env (\<lambda>_. OK) True) (or_empty (cfg_username ex_cfg)))
     (fetched (ex_env (\<lambda>_. OK) True) (inbox (ex_world ex_inbox2)))) = [(1, ''a@b.co'')]"
    by code_simp
qed

theorem reliable_cycle_answers_witness:
  "unseen_nums (inbox (cycle (ex_env (\<lambda>_. OK) True) (\<lambda>_. None) ex_cfg (ex_world ex_inbox2))) = [] \<and>
   addressees (sent (cycle (ex_env (\<lambda>_. OK) True) (\<lambda>_. None) ex_cfg (ex_world ex_inbox2))) =
     [(1, ''a@b.co'')]"
  using ex_inbox2_reliable reliable_cycle_answers [of "ex_env (\<lambda>_. OK) True" ex_cfg "ex_world ex_inbox2" "\<lambda>_. None"]
  by (simp add: ex_world_def addressees_def)

theorem blocking_message_starves_witness:
  "inbox (run_cycles (ex_env (\<lambda>_. OK) False) (\<lambda>_. None) ex_cfg 5 (ex_world ex_inbox_lb)) = ex_inbox_lb \<and>
   sent (run_cycles (ex_env (\<lambda>_. OK) False) (\<lambda>_. None) ex_cfg 5 (ex_world ex_inbox_lb)) = []"
proof -
  let ?E = "ex_env (\<lambda>_. OK) False" and ?w = "ex_world ex_inbox_lb"
  have r: "ext_oracle ?E = (\<lambda>_. OK)" and ns: "\<not> fetch_sets_seen ?E" by (simp_all add: ex_env_def)
  have f: "fetched ?E (inbox ?w) = hd (fetched ?E (inbox ?w)) # tl (fetched ?E (inbox ?w))" by code_simp
  have b: "blocks ?E (or_empty (cfg_username ex_cfg)) (hd (fetched ?E (inbox ?w)))" by code_simp
  show ?thesis using blocking_message_starves [OF r ns f b, of "\<lambda>_. None" 5] by (simp add: ex_world_def)
qed

end
